theory Spec2Isabelle
  imports Main "HOL-Library.Word"
begin

unbundle bit_operations_syntax

section \<open>Data model of \<^verbatim>\<open>src/checker/compiler.h\<close>\<close>

text \<open>
  The compiler lowers a syntax tree to bytecode. A \<^verbatim>\<open>Program\<close> owns the main
  buffer, the literal storage, the chain of lexical frames, the registry of
  subroutines and the stack of active subroutines.

  Conventions of the embedding:
  \<^item> \<^verbatim>\<open>unsigned int\<close> is \<open>32 word\<close>, \<^verbatim>\<open>unsigned char\<close> is \<open>8 word\<close>;
  \<^item> a \<^verbatim>\<open>Subroutine *\<close> points into \<^verbatim>\<open>Program::subroutines\<close>; it is the
    index of the element (\<open>None\<close> is \<^verbatim>\<open>nullptr\<close>). Whether a pointer into a
    \<^verbatim>\<open>std::vector\<close> survives a later \<^verbatim>\<open>push_back\<close> is a matter of memory
    layout and is not modelled: a pointer always denotes the registry entry it
    was taken from;
  \<^item> \<^verbatim>\<open>Symbol::frame\<close> is only ever read as \<^verbatim>\<open>symbol.frame->id\<close>, and a
    frame's id is assigned once, right after the frame is made; the field
    holds that id;
  \<^item> the two \<^verbatim>\<open>opSourceMap\<close> members and \<^verbatim>\<open>Program::storageMap\<close> are declared
    but never read or written by any member function, and are left out.
\<close>

type_synonym byte = "8 word"
type_synonym u32 = "32 word"

datatype SymbolType = Variable | Function | Class | Type | TypeVariable

record Subroutine =
  sub_ops :: "byte list"
  sub_identifier :: string
  sub_address :: u32
  sub_pos :: u32
  sub_type :: SymbolType

record Symbol =
  sym_name :: string
  sym_type :: SymbolType
  sym_index :: u32
  sym_pos :: u32
  sym_declarations :: u32
  sym_routine :: "nat option"
  sym_frame :: u32

datatype Frame =
  Frame (conditional: bool) (previous: "Frame option") (frame_id: u32) (symbols: "Symbol list")

record Program =
  ops :: "byte list"
  storage :: "string list"
  storageIndex :: u32
  frame :: Frame
  activeSubroutines :: "nat list"
  subroutines :: "Subroutine list"

text \<open>A default-constructed \<^verbatim>\<open>Program\<close>: one root frame with id 0.\<close>

definition newProgram :: Program where
  "newProgram =
     \<lparr>ops = [], storage = [], storageIndex = 0,
      frame = Frame False None 0 [],
      activeSubroutines = [], subroutines = []\<rparr>"

text \<open>
  The exceptions of the source, by the contract names of the specification:
  \<^verbatim>\<open>"no symbol found for {}"\<close> is \<open>UnknownRoutine\<close>,
  \<^verbatim>\<open>"No active subroutine found"\<close> is \<open>NoActiveRoutine\<close>,
  \<^verbatim>\<open>"Routine is empty"\<close> is \<open>EmptyRoutine\<close> and
  \<^verbatim>\<open>"No symbol for {} found"\<close> is \<open>UnresolvedSymbol\<close>.
  \<open>InvalidPointer\<close> stands for dereferencing a null or dangling
  \<^verbatim>\<open>Subroutine *\<close>, which C++ leaves undefined.
\<close>

datatype error = UnknownRoutine | NoActiveRoutine | EmptyRoutine | UnresolvedSymbol | InvalidPointer

datatype 'a outcome = Ok 'a | Throw error

subsection \<open>Opcodes\<close>

text \<open>
  Modelled from the spec: the enumeration \<^verbatim>\<open>instructions::OP\<close> of the missing
  \<^verbatim>\<open>instructions.h\<close>. The constructors are the opcodes the compiler names
  (\<^verbatim>\<open>OP::Frame\<close>, \<^verbatim>\<open>instructions::Var\<close>, ...), which are the opcode set of
  the specification's section 6.
\<close>

datatype OP =
  OP_Boolean | OP_String | OP_Number | OP_True | OP_False
  | OP_BigIntLiteral | OP_NumberLiteral | OP_StringLiteral
  | OP_Union | OP_Loads | OP_Call | OP_Var | OP_Function | OP_Unknown
  | OP_Assign | OP_Frame | OP_Jump | OP_Return

text \<open>
  Modelled from the spec: the numeric values of \<^verbatim>\<open>instructions::OP\<close>, which are
  missing with \<^verbatim>\<open>instructions.h\<close>. An opcode is stored in a buffer as one byte
  and recognised again by that byte; the opcodes are numbered in the order of
  the opcode set of the specification's section 6.
\<close>

fun op_byte :: "OP \<Rightarrow> byte" where
  "op_byte OP_Boolean = 0"
| "op_byte OP_String = 1"
| "op_byte OP_Number = 2"
| "op_byte OP_True = 3"
| "op_byte OP_False = 4"
| "op_byte OP_BigIntLiteral = 5"
| "op_byte OP_NumberLiteral = 6"
| "op_byte OP_StringLiteral = 7"
| "op_byte OP_Union = 8"
| "op_byte OP_Loads = 9"
| "op_byte OP_Call = 10"
| "op_byte OP_Var = 11"
| "op_byte OP_Function = 12"
| "op_byte OP_Unknown = 13"
| "op_byte OP_Assign = 14"
| "op_byte OP_Frame = 15"
| "op_byte OP_Jump = 16"
| "op_byte OP_Return = 17"

subsection \<open>Fixed-width integers in a byte buffer\<close>

text \<open>
  Modelled from the spec: the byte order of the missing \<^verbatim>\<open>utils.h\<close>. All
  multi-byte integers of the binary are little-endian: a 4-byte value as its
  four bytes, least significant first.
\<close>

definition u32le :: "u32 \<Rightarrow> byte list" where
  "u32le v = [ucast v, ucast (drop_bit 8 v), ucast (drop_bit 16 v), ucast (drop_bit 24 v)]"

text \<open>
  Modelled from the spec: the byte order of the missing \<^verbatim>\<open>utils.h\<close>, for the
  2-byte length prefix of a storage entry.
\<close>

definition u16le :: "16 word \<Rightarrow> byte list" where
  "u16le v = [ucast v, ucast (drop_bit 8 v)]"

text \<open>
  Modelled from the spec: the byte order of the missing \<^verbatim>\<open>utils.h\<close>, read
  back: the value of a little-endian byte sequence.
\<close>

fun le_word :: "byte list \<Rightarrow> u32" where
  "le_word [] = 0"
| "le_word (b # bs) = ucast b OR push_bit 8 (le_word bs)"

text \<open>
  Modelled from the spec: \<^verbatim>\<open>writeUint32\<close> of the missing \<^verbatim>\<open>utils.h\<close>. The
  compiler uses it to append a 4-byte value at the end of a buffer and to
  patch 4 bytes that exist. Any other offset touches memory outside the
  buffer and is \<open>None\<close>.
\<close>

definition writeUint32 :: "byte list \<Rightarrow> nat \<Rightarrow> u32 \<Rightarrow> byte list option" where
  "writeUint32 bin offset v =
     (if offset + 4 \<le> length bin then Some (take offset bin @ u32le v @ drop (offset + 4) bin)
      else if offset = length bin then Some (bin @ u32le v)
      else None)"

text \<open>
  Modelled from the spec: \<^verbatim>\<open>writeUint16\<close> of the missing \<^verbatim>\<open>utils.h\<close>, the
  2-byte counterpart of \<open>writeUint32\<close>.
\<close>

definition writeUint16 :: "byte list \<Rightarrow> nat \<Rightarrow> 16 word \<Rightarrow> byte list option" where
  "writeUint16 bin offset v =
     (if offset + 2 \<le> length bin then Some (take offset bin @ u16le v @ drop (offset + 2) bin)
      else if offset = length bin then Some (bin @ u16le v)
      else None)"

text \<open>
  Modelled from the spec: \<^verbatim>\<open>readUint32\<close> of the missing \<^verbatim>\<open>utils.h\<close>. It reads
  4 bytes that exist; reading beyond the end of the buffer is \<open>None\<close>.
\<close>

definition readUint32 :: "byte list \<Rightarrow> nat \<Rightarrow> u32 option" where
  "readUint32 bin offset =
     (if offset + 4 \<le> length bin then Some (le_word (take 4 (drop offset bin))) else None)"

section \<open>Operations of \<^verbatim>\<open>Program\<close>\<close>

subsection \<open>The emission target\<close>

text \<open>
  \<^verbatim>\<open>getOPs\<close> returns a reference to the buffer of the innermost active
  subroutine, or to the main buffer. The reference is modelled by a reader and
  a writer. An entry of \<^verbatim>\<open>activeSubroutines\<close> outside the registry would be a
  dangling pointer; no member function produces one, and the model reads an
  empty buffer and writes nothing there.
\<close>

definition getOPs :: "Program \<Rightarrow> byte list" where
  "getOPs p =
     (if activeSubroutines p \<noteq> [] then
        (let r = last (activeSubroutines p)
         in if r < length (subroutines p) then sub_ops (subroutines p ! r) else [])
      else ops p)"

definition putOPs :: "byte list \<Rightarrow> Program \<Rightarrow> Program" where
  "putOPs bs p =
     (if activeSubroutines p \<noteq> [] then
        (let r = last (activeSubroutines p)
         in if r < length (subroutines p)
            then p\<lparr>subroutines := (subroutines p)[r := (subroutines p ! r)\<lparr>sub_ops := bs\<rparr>]\<rparr>
            else p)
      else p\<lparr>ops := bs\<rparr>)"

text \<open>
  \<^verbatim>\<open>pushOp\<close>: the opcode, then every parameter narrowed to one byte (the
  parameters are \<^verbatim>\<open>unsigned int\<close>s inserted into a vector of \<^verbatim>\<open>unsigned char\<close>).
\<close>

definition pushOp :: "OP \<Rightarrow> u32 list \<Rightarrow> Program \<Rightarrow> Program" where
  "pushOp op params p = putOPs (getOPs p @ [op_byte op] @ map ucast params) p"

text \<open>
  \<^verbatim>\<open>pushAddress\<close> and \<^verbatim>\<open>pushSymbolAddress\<close> write at \<^verbatim>\<open>ops.size()\<close>, where
  \<open>writeUint32\<close> always appends.
\<close>

definition pushAddress :: "u32 \<Rightarrow> Program \<Rightarrow> Program" where
  "pushAddress address p =
     (case writeUint32 (getOPs p) (length (getOPs p)) address of
        Some bs \<Rightarrow> putOPs bs p
      | None \<Rightarrow> p)"

definition pushSymbolAddress :: "Symbol \<Rightarrow> Program \<Rightarrow> Program" where
  "pushSymbolAddress symbol p = pushAddress (sym_index symbol) (pushAddress (sym_frame symbol) p)"

subsection \<open>Frames\<close>

text \<open>
  \<^verbatim>\<open>pushFrame\<close> returns the new frame, which is also the current one
  afterwards. The id of the new frame is the id of its parent plus one.
\<close>

definition pushFrame :: "bool \<Rightarrow> Program \<Rightarrow> Frame \<times> Program" where
  "pushFrame implicit p =
     (let p1 = (if \<not> implicit then pushOp OP_Frame [] p else p);
          id' = frame_id (frame p1);
          f = Frame False (Some (frame p1)) (id' + 1) []
      in (f, p1\<lparr>frame := f\<rparr>))"

definition popFrameImplicit :: "Program \<Rightarrow> Program" where
  "popFrameImplicit p =
     (case previous (frame p) of
        Some f \<Rightarrow> p\<lparr>frame := f\<rparr>
      | None \<Rightarrow> p)"

subsection \<open>Symbols\<close>

text \<open>The position of the first symbol of a list with a given name.\<close>

fun findByName :: "string \<Rightarrow> Symbol list \<Rightarrow> nat option" where
  "findByName nm [] = None"
| "findByName nm (s # ss) =
     (if sym_name s = nm then Some 0 else map_option Suc (findByName nm ss))"

definition setSymbols :: "Symbol list \<Rightarrow> Frame \<Rightarrow> Frame" where
  "setSymbols ss f = Frame (conditional f) (previous f) (frame_id f) ss"

text \<open>
  \<^verbatim>\<open>findSymbol\<close>: the frames from the current one outwards, the symbols of each
  in order. It does not change the program.
\<close>

fun findSymbolFrom :: "Frame \<Rightarrow> string \<Rightarrow> Symbol outcome" where
  "findSymbolFrom (Frame c prev i ss) identifier =
     (case findByName identifier ss of
        Some k \<Rightarrow> Ok (ss ! k)
      | None \<Rightarrow>
          (case prev of
             None \<Rightarrow> Throw UnresolvedSymbol
           | Some f \<Rightarrow> findSymbolFrom f identifier))"

definition findSymbol :: "string \<Rightarrow> Program \<Rightarrow> Symbol outcome" where
  "findSymbol identifier p = findSymbolFrom (frame p) identifier"

text \<open>
  \<^verbatim>\<open>pushSymbol\<close>, called with the default \<^verbatim>\<open>frameToUse = nullptr\<close> as every call
  of the source does. It returns a reference to a symbol of the current frame:
  the position of that symbol. The initializer list of the new symbol names
  \<^verbatim>\<open>frame\<close>, \<^verbatim>\<open>name\<close>, \<^verbatim>\<open>pos\<close> and \<^verbatim>\<open>index\<close>; \<^verbatim>\<open>type\<close> is not among them and
  is value-initialised to the first enumerator, \<^verbatim>\<open>declarations\<close> and
  \<^verbatim>\<open>routine\<close> take their default member initialisers.
\<close>

definition pushSymbol :: "string \<Rightarrow> SymbolType \<Rightarrow> u32 \<Rightarrow> Program \<Rightarrow> nat \<times> Program" where
  "pushSymbol nm ty pos p =
     (let f = frame p; ss = symbols f
      in case findByName nm ss of
           Some k \<Rightarrow>
             (k, p\<lparr>frame := setSymbols
                    (ss[k := (ss ! k)\<lparr>sym_declarations := sym_declarations (ss ! k) + 1\<rparr>]) f\<rparr>)
         | None \<Rightarrow>
             (length ss,
              p\<lparr>frame := setSymbols
                    (ss @ [\<lparr>sym_name = nm, sym_type = Variable,
                            sym_index = of_nat (length ss), sym_pos = pos,
                            sym_declarations = 1, sym_routine = None,
                            sym_frame = frame_id f\<rparr>]) f\<rparr>))"

definition pushSymbolForRoutine :: "string \<Rightarrow> SymbolType \<Rightarrow> u32 \<Rightarrow> Program \<Rightarrow> nat \<times> Program" where
  "pushSymbolForRoutine nm ty pos p =
     (case pushSymbol nm ty pos p of
        (k, p1) \<Rightarrow>
          (let f = frame p1; ss = symbols f
           in if sym_routine (ss ! k) \<noteq> None then (k, p1)
              else
                (let routine = \<lparr>sub_ops = [], sub_identifier = nm,
                                 sub_address = of_nat (length (subroutines p1)),
                                 sub_pos = pos, sub_type = ty\<rparr>
                 in (k, p1\<lparr>subroutines := subroutines p1 @ [routine],
                           frame := setSymbols
                             (ss[k := (ss ! k)\<lparr>sym_routine := Some (length (subroutines p1))\<rparr>]) f\<rparr>))))"

subsection \<open>Subroutines\<close>

text \<open>
  \<^verbatim>\<open>pushSubroutine\<close> scans the symbols of the current frame only. On a symbol
  without routine it dereferences a null pointer after the frame is pushed.
\<close>

definition pushSubroutine :: "string \<Rightarrow> Program \<Rightarrow> u32 outcome \<times> Program" where
  "pushSubroutine nm p =
     (case findByName nm (symbols (frame p)) of
        None \<Rightarrow> (Throw UnknownRoutine, p)
      | Some k \<Rightarrow>
          (let s = symbols (frame p) ! k;
               p1 = snd (pushFrame True p)
           in case sym_routine s of
                None \<Rightarrow> (Throw InvalidPointer, p1)
              | Some r \<Rightarrow>
                  if r < length (subroutines p1)
                  then (Ok (sub_address (subroutines p1 ! r)),
                        p1\<lparr>activeSubroutines := activeSubroutines p1 @ [r]\<rparr>)
                  else (Throw InvalidPointer, p1)))"

text \<open>
  \<^verbatim>\<open>popSubroutine\<close>: the frame is left before the routine is inspected, so the
  \<^verbatim>\<open>"Routine is empty"\<close> exception leaves the program with the frame already
  popped.
\<close>

definition popSubroutine :: "Program \<Rightarrow> unit outcome \<times> Program" where
  "popSubroutine p =
     (if activeSubroutines p = [] then (Throw NoActiveRoutine, p)
      else
        (let p1 = popFrameImplicit p;
             r = last (activeSubroutines p1)
         in if r < length (subroutines p1) then
              (if sub_ops (subroutines p1 ! r) = [] then (Throw EmptyRoutine, p1)
               else
                 (Ok (),
                  p1\<lparr>subroutines :=
                        (subroutines p1)[r := (subroutines p1 ! r)
                           \<lparr>sub_ops := sub_ops (subroutines p1 ! r) @ [op_byte OP_Return]\<rparr>],
                      activeSubroutines := butlast (activeSubroutines p1)\<rparr>))
            else (Throw InvalidPointer, p1)))"

subsection \<open>Literal storage\<close>

text \<open>
  \<^verbatim>\<open>registerStorage\<close> appends the literal and advances the running offset by
  the 2-byte length prefix and the payload. It never looks for an earlier
  entry with the same payload.
\<close>

definition registerStorage :: "string \<Rightarrow> Program \<Rightarrow> u32 \<times> Program" where
  "registerStorage s p =
     (let p1 = (if storageIndex p = 0 then p\<lparr>storageIndex := 5\<rparr> else p);
          address = storageIndex p1
      in (address,
          p1\<lparr>storage := storage p1 @ [s],
             storageIndex := storageIndex p1 + 2 + of_nat (length s)\<rparr>))"

definition pushStorage :: "string \<Rightarrow> Program \<Rightarrow> Program" where
  "pushStorage s p = (case registerStorage s p of (address, p1) \<Rightarrow> pushAddress address p1)"

fun findStorageFrom :: "u32 \<Rightarrow> string list \<Rightarrow> u32 \<Rightarrow> string" where
  "findStorageFrom i [] index = ''!unknown''"
| "findStorageFrom i (s # ss) index =
     (if i = index then s else findStorageFrom (i + 2 + of_nat (length s)) ss index)"

definition findStorage :: "u32 \<Rightarrow> Program \<Rightarrow> string" where
  "findStorage index p = findStorageFrom 5 (storage p) index"

section \<open>The node walker\<close>

text \<open>
  The syntax tree comes from the parser, which is outside this file. A node
  carries what \<^verbatim>\<open>Compiler::handle\<close> reads of it: an alias its name, position,
  optional type parameters and aliased type; a function its identifier (absent
  when the name is not an identifier) with position, parameters, optional
  return type and optional body; a variable declaration its identifier,
  optional type and optional initializer. \<open>Unhandled\<close> is any kind that falls
  into the \<^verbatim>\<open>default\<close> branch.
\<close>

datatype Node =
  SourceFile "Node list"
  | BooleanKeyword
  | StringKeyword
  | NumberKeyword
  | BigIntLiteral string
  | NumericLiteral string
  | StringLiteral string
  | TrueKeyword
  | FalseKeyword
  | UnionType "Node list"
  | TypeReference string
  | TypeAliasDeclaration string u32 "Node list option" Node
  | FunctionDeclaration "(string \<times> u32) option" "Node list" "Node option" "Node option"
  | VariableStatement "Node list"
  | VariableDeclaration "(string \<times> u32) option" "Node option" "Node option"
  | Unhandled

text \<open>
  A step of the walker ends with a program and either normally or with an
  exception. The walker itself may not return: the function case handles the
  function node again for each of its parameters, inside the frame it has just
  entered. It is therefore defined with fuel, one unit per nesting level of
  \<^verbatim>\<open>handle\<close>; \<open>None\<close> means the fuel ran out.
\<close>

type_synonym result = "(unit outcome \<times> Program) option"

definition returns :: "Program \<Rightarrow> result" where
  "returns p = Some (Ok (), p)"

fun andThen :: "result \<Rightarrow> (Program \<Rightarrow> result) \<Rightarrow> result" where
  "andThen None f = None"
| "andThen (Some (Throw e, p)) f = Some (Throw e, p)"
| "andThen (Some (Ok u, p)) f = f p"

fun handle :: "nat \<Rightarrow> Node \<Rightarrow> Program \<Rightarrow> result"
  and handleList :: "nat \<Rightarrow> Node list \<Rightarrow> Program \<Rightarrow> result" where
  "handle 0 node p = None"
| "handle (Suc n) node p =
     (case node of
        SourceFile statements \<Rightarrow> handleList n statements p
      | BooleanKeyword \<Rightarrow> returns (pushOp OP_Boolean [] p)
      | StringKeyword \<Rightarrow> returns (pushOp OP_String [] p)
      | NumberKeyword \<Rightarrow> returns (pushOp OP_Number [] p)
      | BigIntLiteral text \<Rightarrow> returns (pushStorage text (pushOp OP_BigIntLiteral [] p))
      | NumericLiteral text \<Rightarrow> returns (pushStorage text (pushOp OP_NumberLiteral [] p))
      | StringLiteral text \<Rightarrow> returns (pushStorage text (pushOp OP_StringLiteral [] p))
      | TrueKeyword \<Rightarrow> returns (pushOp OP_True [] p)
      | FalseKeyword \<Rightarrow> returns (pushOp OP_False [] p)
      | UnionType types \<Rightarrow>
          andThen (handleList n types (snd (pushFrame False p)))
            (\<lambda>p1. returns (popFrameImplicit (pushOp OP_Union [] p1)))
      | TypeReference name \<Rightarrow>
          (case findSymbol name p of
             Throw e \<Rightarrow> Some (Throw e, p)
           | Ok symbol \<Rightarrow>
               if sym_type symbol = TypeVariable
               then returns (pushSymbolAddress symbol (pushOp OP_Loads [] p))
               else
                 (let p1 = pushOp OP_Call [] p
                  in case sym_routine symbol of
                       None \<Rightarrow> Some (Throw InvalidPointer, p1)
                     | Some r \<Rightarrow>
                         if r < length (subroutines p1)
                         then returns (pushAddress (sub_address (subroutines p1 ! r)) p1)
                         else Some (Throw InvalidPointer, p1)))
      | TypeAliasDeclaration name pos typeParameters type \<Rightarrow>
          (case pushSymbolForRoutine name Type pos p of
             (k, p1) \<Rightarrow>
               if 1 < sym_declarations (symbols (frame p1) ! k) then returns p1
               else
                 (case pushSubroutine name p1 of
                    (Throw e, p2) \<Rightarrow> Some (Throw e, p2)
                  | (Ok a, p2) \<Rightarrow>
                      (let p3 =
                         (case typeParameters of
                            None \<Rightarrow> p2
                          | Some ps \<Rightarrow>
                              fold (\<lambda>param q. pushOp OP_Var [] (snd (pushSymbol name TypeVariable pos q)))
                                ps p2)
                       in andThen (handle n type p3) (\<lambda>p4. Some (popSubroutine p4)))))
      | FunctionDeclaration name parameters type body \<Rightarrow>
          (case name of
             None \<Rightarrow> returns p
           | Some (text, idpos) \<Rightarrow>
               (case pushSymbolForRoutine text Function idpos p of
                  (k, p1) \<Rightarrow>
                    if 1 < sym_declarations (symbols (frame p1) ! k) then returns p1
                    else
                      (case pushSubroutine text p1 of
                         (Throw e, p2) \<Rightarrow> Some (Throw e, p2)
                       | (Ok a, p2) \<Rightarrow>
                           andThen (handleList n (map (\<lambda>param. node) parameters) p2)
                             (\<lambda>p3. andThen
                                (case type of
                                   Some t \<Rightarrow> handle n t p3
                                 | None \<Rightarrow> returns (pushOp OP_Unknown [] p3))
                                (\<lambda>p4. Some (popSubroutine (pushOp OP_Function [] p4)))))))
      | VariableStatement declarations \<Rightarrow> handleList n declarations p
      | VariableDeclaration name type initializer \<Rightarrow>
          (case name of
             None \<Rightarrow> returns p
           | Some (text, idpos) \<Rightarrow>
               (case pushSymbolForRoutine text Variable idpos p of
                  (k, p1) \<Rightarrow>
                    if 1 < sym_declarations (symbols (frame p1) ! k) then returns p1
                    else
                      (case pushSubroutine text p1 of
                         (Throw e, p2) \<Rightarrow> Some (Throw e, p2)
                       | (Ok subroutineIndex, p2) \<Rightarrow>
                           andThen
                             (case type of
                                Some t \<Rightarrow> handle n t p2
                              | None \<Rightarrow> returns (pushOp OP_Unknown [] p2))
                             (\<lambda>p3. andThen (Some (popSubroutine p3))
                                (\<lambda>p4. case initializer of
                                         None \<Rightarrow> returns p4
                                       | Some init \<Rightarrow>
                                           andThen (handle n init p4)
                                             (\<lambda>p5. returns
                                                (pushOp OP_Assign []
                                                  (pushAddress subroutineIndex
                                                    (pushOp OP_Call [] p5)))))))))
      | Unhandled \<Rightarrow> returns p)"
| "handleList n [] p = returns p"
| "handleList n (x # xs) p = andThen (handle n x p) (\<lambda>p1. handleList n xs p1)"

definition compileSourceFile :: "nat \<Rightarrow> Node \<Rightarrow> result" where
  "compileSourceFile fuel file = handle fuel file newProgram"

section \<open>The linker\<close>

subsection \<open>Rewriting the call operands\<close>

text \<open>
  The loop of \<^verbatim>\<open>setFinalBinaryAddress\<close>, from counter \<open>i\<close> on, with \<open>end\<close> the
  size of the buffer when the loop starts. Beside the buffer it returns the
  values the counter takes at the head of the loop body, that is every
  position whose byte is read as an opcode. The counter is an
  \<^verbatim>\<open>unsigned int\<close>; buffers are taken to be shorter than \<open>2^32\<close> bytes, so it
  does not wrap, and it is a natural number here.

  A \<^verbatim>\<open>Call\<close> reads the 4 bytes after it as a registry index, looks the
  routine up and writes its address over the 4 bytes, then skips them. Reading
  or writing outside the buffer, and an index outside the registry, are
  undefined in C++ and \<open>None\<close> here. \<^verbatim>\<open>Loads\<close> and the three literal opcodes
  skip 4 bytes; every other byte skips nothing.
\<close>

function setFinalBinaryAddressFrom ::
  "Subroutine list \<Rightarrow> nat \<Rightarrow> nat \<Rightarrow> byte list \<Rightarrow> (nat list \<times> byte list) option" where
  "setFinalBinaryAddressFrom subs end i bs =
     (if i < end then
        (if bs ! i = op_byte OP_Call then
           (case readUint32 bs (i + 1) of
              None \<Rightarrow> None
            | Some index \<Rightarrow>
                if unat index < length subs then
                  (case writeUint32 bs (i + 1) (sub_address (subs ! unat index)) of
                     None \<Rightarrow> None
                   | Some bs1 \<Rightarrow>
                       map_option (\<lambda>(visited, out). (i # visited, out))
                         (setFinalBinaryAddressFrom subs end (i + 5) bs1))
                else None)
         else if bs ! i = op_byte OP_Loads \<or> bs ! i = op_byte OP_NumberLiteral
                 \<or> bs ! i = op_byte OP_BigIntLiteral \<or> bs ! i = op_byte OP_StringLiteral then
           map_option (\<lambda>(visited, out). (i # visited, out))
             (setFinalBinaryAddressFrom subs end (i + 5) bs)
         else
           map_option (\<lambda>(visited, out). (i # visited, out))
             (setFinalBinaryAddressFrom subs end (i + 1) bs))
      else Some ([], bs))"
  by pat_completeness auto
termination
  by (relation "measure (\<lambda>(subs, end, i, bs). end - i)") auto

definition setFinalBinaryAddress :: "Subroutine list \<Rightarrow> byte list \<Rightarrow> byte list option" where
  "setFinalBinaryAddress subs bs =
     map_option snd (setFinalBinaryAddressFrom subs (length bs) 0 bs)"

definition opcodeReads :: "Subroutine list \<Rightarrow> byte list \<Rightarrow> nat list option" where
  "opcodeReads subs bs =
     map_option fst (setFinalBinaryAddressFrom subs (length bs) 0 bs)"

subsection \<open>Assembling the binary\<close>

text \<open>The storage loop of \<^verbatim>\<open>build\<close>: length prefix, payload, running address.\<close>

fun buildStorage :: "string list \<Rightarrow> byte list \<Rightarrow> u32 \<Rightarrow> (byte list \<times> u32) option" where
  "buildStorage [] bin address = Some (bin, address)"
| "buildStorage (item # items) bin address =
     (case writeUint16 bin (unat address) (of_nat (length item)) of
        None \<Rightarrow> None
      | Some bin1 \<Rightarrow>
          buildStorage items (bin1 @ map of_char item) (address + 2 + of_nat (length item)))"

text \<open>The loop that gives every subroutine its final address.\<close>

fun assignAddresses :: "Subroutine list \<Rightarrow> u32 \<Rightarrow> Subroutine list" where
  "assignAddresses [] routineAddress = []"
| "assignAddresses (routine # rest) routineAddress =
     routine\<lparr>sub_address := routineAddress\<rparr>
       # assignAddresses rest (routineAddress + of_nat (length (sub_ops routine)))"

text \<open>
  The loop that rewrites the buffer of every subroutine in place, in registry
  order, from the \<open>k\<close>-th on.
\<close>

function linkRoutinesFrom :: "nat \<Rightarrow> Subroutine list \<Rightarrow> Subroutine list option" where
  "linkRoutinesFrom k subs =
     (if k < length subs then
        (case setFinalBinaryAddress subs (sub_ops (subs ! k)) of
           None \<Rightarrow> None
         | Some bs \<Rightarrow> linkRoutinesFrom (k + 1) (subs[k := (subs ! k)\<lparr>sub_ops := bs\<rparr>]))
      else Some subs)"
  by pat_completeness auto
termination
  by (relation "measure (\<lambda>(k, subs). length subs - k)") auto

text \<open>
  \<^verbatim>\<open>build\<close> returns the binary; it also leaves the final addresses and the
  rewritten buffers in the program, which is returned with it.
\<close>

definition build :: "Program \<Rightarrow> (byte list \<times> Program) option" where
  "build p =
     (let header = (0 < length (storage p) \<or> 0 < length (subroutines p));
          address0 = (if header then 5 else 0);
          bin0 = (if header then op_byte OP_Jump # u32le 0 else [])
      in case buildStorage (storage p) bin0 address0 of
           None \<Rightarrow> None
         | Some (bin1, address1) \<Rightarrow>
             (let subs1 = assignAddresses (subroutines p) address1
              in case setFinalBinaryAddress subs1 (ops p) of
                   None \<Rightarrow> None
                 | Some ops1 \<Rightarrow>
                     (case linkRoutinesFrom 0 subs1 of
                        None \<Rightarrow> None
                      | Some subs2 \<Rightarrow>
                          (let bin2 = bin1 @ concat (map sub_ops subs2);
                               address2 = address1 + of_nat (length (concat (map sub_ops subs2)))
                           in case writeUint32 bin2 1 address2 of
                                None \<Rightarrow> None
                              | Some bin3 \<Rightarrow>
                                  Some (bin3 @ ops1, p\<lparr>ops := ops1, subroutines := subs2\<rparr>)))))"

section \<open>Auxiliary predicates for the statements\<close>

text \<open>
  The emission target is valid when no subroutine is active or the innermost
  active one is an entry of the registry.
\<close>

definition validTarget :: "Program \<Rightarrow> bool" where
  "validTarget p =
     (activeSubroutines p = [] \<or> last (activeSubroutines p) < length (subroutines p))"

text \<open>A frame followed by its ancestors, innermost first.\<close>

fun chain :: "Frame \<Rightarrow> Frame list" where
  "chain (Frame c prev i ss) =
     Frame c prev i ss # (case prev of None \<Rightarrow> [] | Some f \<Rightarrow> chain f)"

definition declares :: "Frame \<Rightarrow> string \<Rightarrow> bool" where
  "declares f nm = (nm \<in> sym_name ` set (symbols f))"

text \<open>
  An example state: the alias \<^verbatim>\<open>A\<close> is declared in the root frame and a child
  frame has been entered.
\<close>

definition insideRoutineA :: Program where
  "insideRoutineA = snd (pushFrame True (snd (pushSymbolForRoutine ''A'' Type 0 newProgram)))"

text \<open>
  An example state: the alias \<^verbatim>\<open>A\<close> is declared in the root frame and its
  routine has been entered, with nothing emitted yet.
\<close>

definition enteredA :: Program where
  "enteredA = snd (pushSubroutine ''A'' (snd (pushSymbolForRoutine ''A'' Type 0 newProgram)))"

text \<open>
  A symbol of kind \<^verbatim>\<open>TypeVariable\<close> owned by the frame with the given id, at the
  given slot.
\<close>

definition typeVariableAt :: "u32 \<Rightarrow> u32 \<Rightarrow> Symbol" where
  "typeVariableAt frameId slot =
     \<lparr>sym_name = ''T'', sym_type = TypeVariable, sym_index = slot, sym_pos = 0,
      sym_declarations = 1, sym_routine = None, sym_frame = frameId\<rparr>"

text \<open>
  The instructions the walker emits: an opcode alone, or an opcode followed
  by one 4-byte value (\<^verbatim>\<open>Call\<close> and the three literal opcodes). \<^verbatim>\<open>Loads\<close> is
  emitted with two 4-byte values and is not an instruction of this kind.
  An instruction is in order for a registry of \<open>n\<close> subroutines when a
  \<^verbatim>\<open>Call\<close> carries an index below \<open>n\<close>.
\<close>

datatype Instr = Plain OP | WithAddress OP u32

definition takesAddress :: "OP \<Rightarrow> bool" where
  "takesAddress op =
     (op = OP_Call \<or> op = OP_NumberLiteral \<or> op = OP_BigIntLiteral \<or> op = OP_StringLiteral)"

fun okInstr :: "nat \<Rightarrow> Instr \<Rightarrow> bool" where
  "okInstr n (Plain op) = (\<not> takesAddress op \<and> op \<noteq> OP_Loads)"
| "okInstr n (WithAddress op a) = (takesAddress op \<and> (op = OP_Call \<longrightarrow> unat a < n))"

fun encode :: "Instr \<Rightarrow> byte list" where
  "encode (Plain op) = [op_byte op]"
| "encode (WithAddress op a) = op_byte op # u32le a"

definition assemble :: "Instr list \<Rightarrow> byte list" where
  "assemble items = concat (map encode items)"

fun relink :: "(nat \<Rightarrow> u32) \<Rightarrow> Instr \<Rightarrow> Instr" where
  "relink addr (Plain op) = Plain op"
| "relink addr (WithAddress op a) =
     (if op = OP_Call then WithAddress op (addr (unat a)) else WithAddress op a)"

fun offsets :: "nat \<Rightarrow> Instr list \<Rightarrow> nat list" where
  "offsets i [] = []"
| "offsets i (it # its) = i # offsets (i + length (encode it)) its"

text \<open>
  The storage region of the binary, and the offset in the binary at which the
  \<open>k\<close>-th subroutine starts: header, storage region, and the subroutines
  before it.
\<close>

definition storageBytes :: "string list \<Rightarrow> byte list" where
  "storageBytes items = concat (map (\<lambda>item. u16le (of_nat (length item)) @ map of_char item) items)"

definition finalAddress :: "Program \<Rightarrow> nat \<Rightarrow> nat" where
  "finalAddress p k =
     5 + length (storageBytes (storage p))
       + length (concat (map sub_ops (take k (subroutines p))))"

text \<open>
  A buffer is a stream for a registry of \<open>n\<close> subroutines when it is assembled
  from instructions in order for that registry. A program is well formed when
  its main buffer and the buffer of every subroutine are streams for its
  registry, every subroutine's address is still its registry index, no symbol
  on the frame chain has kind \<^verbatim>\<open>TypeVariable\<close>, and every routine a symbol or
  the stack of active subroutines refers to is in the registry.
\<close>

definition stream :: "nat \<Rightarrow> byte list \<Rightarrow> bool" where
  "stream n bs = (\<exists>items. bs = assemble items \<and> (\<forall>it \<in> set items. okInstr n it))"

definition symbolsOk :: "nat \<Rightarrow> Frame \<Rightarrow> bool" where
  "symbolsOk n f =
     (\<forall>g \<in> set (chain f). \<forall>s \<in> set (symbols g).
        sym_type s \<noteq> TypeVariable \<and> (\<forall>r. sym_routine s = Some r \<longrightarrow> r < n))"

definition wellFormed :: "Program \<Rightarrow> bool" where
  "wellFormed p =
     (stream (length (subroutines p)) (ops p)
      \<and> (\<forall>r \<in> set (subroutines p). stream (length (subroutines p)) (sub_ops r))
      \<and> (\<forall>k<length (subroutines p). sub_address (subroutines p ! k) = of_nat k)
      \<and> symbolsOk (length (subroutines p)) (frame p)
      \<and> (\<forall>r \<in> set (activeSubroutines p). r < length (subroutines p)))"

text \<open>
  The program that the walker leaves for the unit
  \<^verbatim>\<open>type B = number; type A = B\<close>.
\<close>

definition compiledBA :: Program where
  "compiledBA =
     \<lparr>ops = [], storage = [], storageIndex = 0,
      frame = Frame False None 0
        [\<lparr>sym_name = ''B'', sym_type = Variable, sym_index = 0, sym_pos = 0,
          sym_declarations = 1, sym_routine = Some 0, sym_frame = 0\<rparr>,
         \<lparr>sym_name = ''A'', sym_type = Variable, sym_index = 1, sym_pos = 0,
          sym_declarations = 1, sym_routine = Some 1, sym_frame = 0\<rparr>],
      activeSubroutines = [],
      subroutines =
        [\<lparr>sub_ops = [op_byte OP_Number, op_byte OP_Return], sub_identifier = ''B'',
          sub_address = 0, sub_pos = 0, sub_type = Type\<rparr>,
         \<lparr>sub_ops = op_byte OP_Call # u32le 0 @ [op_byte OP_Return], sub_identifier = ''A'',
          sub_address = 1, sub_pos = 0, sub_type = Type\<rparr>]\<rparr>"

section \<open>Basic facts about the emission target and the frames\<close>

lemma frame_putOPs [simp]: "frame (putOPs bs p) = frame p"
  by (simp add: putOPs_def Let_def)

lemma active_putOPs [simp]: "activeSubroutines (putOPs bs p) = activeSubroutines p"
  by (simp add: putOPs_def Let_def)

lemma storage_putOPs [simp]: "storage (putOPs bs p) = storage p"
  by (simp add: putOPs_def Let_def)

lemma storageIndex_putOPs [simp]: "storageIndex (putOPs bs p) = storageIndex p"
  by (simp add: putOPs_def Let_def)

lemma length_subroutines_putOPs [simp]:
  "length (subroutines (putOPs bs p)) = length (subroutines p)"
  by (simp add: putOPs_def Let_def)

lemma getOPs_putOPs: "validTarget p \<Longrightarrow> getOPs (putOPs bs p) = bs"
  by (auto simp: validTarget_def putOPs_def getOPs_def Let_def)

lemma putOPs_putOPs [simp]: "putOPs bs (putOPs cs p) = putOPs bs p"
  by (simp add: putOPs_def Let_def)

lemma validTarget_putOPs [simp]: "validTarget (putOPs bs p) = validTarget p"
  by (simp add: validTarget_def)

lemma putOPs_frame [simp]: "putOPs bs (p\<lparr>frame := f\<rparr>) = (putOPs bs p)\<lparr>frame := f\<rparr>"
  by (simp add: putOPs_def Let_def)

lemma getOPs_frame [simp]: "getOPs (p\<lparr>frame := f\<rparr>) = getOPs p"
  by (simp add: getOPs_def Let_def)

lemma validTarget_frame [simp]: "validTarget (p\<lparr>frame := f\<rparr>) = validTarget p"
  by (simp add: validTarget_def)

lemma frame_pushOp [simp]: "frame (pushOp op ps p) = frame p"
  by (simp add: pushOp_def)

lemma getOPs_pushOp:
  "validTarget p \<Longrightarrow> getOPs (pushOp op ps p) = getOPs p @ op_byte op # map ucast ps"
  by (simp add: pushOp_def getOPs_putOPs)

lemma validTarget_pushOp [simp]: "validTarget (pushOp op ps p) = validTarget p"
  by (simp add: pushOp_def)

lemma pushOp_frame [simp]: "pushOp op ps (p\<lparr>frame := f\<rparr>) = (pushOp op ps p)\<lparr>frame := f\<rparr>"
  by (simp add: pushOp_def)

lemma snd_pushFrame_implicit:
  "snd (pushFrame True p) = p\<lparr>frame := Frame False (Some (frame p)) (frame_id (frame p) + 1) []\<rparr>"
  by (simp add: pushFrame_def Let_def)

lemma snd_pushFrame_explicit:
  "snd (pushFrame False p) =
     (pushOp OP_Frame [] p)\<lparr>frame := Frame False (Some (frame p)) (frame_id (frame p) + 1) []\<rparr>"
  by (simp add: pushFrame_def Let_def)

lemma popFrameImplicit_child [simp]:
  "popFrameImplicit (p\<lparr>frame := Frame c (Some f) i ss\<rparr>) = p\<lparr>frame := f\<rparr>"
  by (simp add: popFrameImplicit_def)

lemma validTarget_newProgram: "validTarget newProgram"
  by (simp add: validTarget_def newProgram_def)

section \<open>Union types\<close>

text \<open>
  Claim C7. Compiling the union of the keyword types \<^verbatim>\<open>number\<close> and \<^verbatim>\<open>string\<close>
  (in that order) appends exactly the four bytes \<^verbatim>\<open>Frame\<close>, \<^verbatim>\<open>Number\<close>,
  \<^verbatim>\<open>String\<close>, \<^verbatim>\<open>Union\<close> to the emission target and changes nothing else:
  the frame entered for the union is left again without any further opcode.
  Two units of fuel suffice.
\<close>

theorem union_number_string:
  assumes "validTarget p"
  shows "\<exists>p'. handle (Suc (Suc n)) (UnionType [NumberKeyword, StringKeyword]) p = Some (Ok (), p')
      \<and> getOPs p' = getOPs p @ [op_byte OP_Frame, op_byte OP_Number, op_byte OP_String, op_byte OP_Union]
      \<and> p' = putOPs (getOPs p') p"
  using assms
  apply (simp add: returns_def snd_pushFrame_explicit getOPs_pushOp)
  apply (simp add: pushOp_def getOPs_putOPs)
  done

theorem union_number_string_witness:
  "validTarget newProgram \<and>
   handle (Suc (Suc 0)) (UnionType [NumberKeyword, StringKeyword]) newProgram
     = Some (Ok (), newProgram\<lparr>ops := [15, 2, 1, 8]\<rparr>)"
proof -
  have v: "validTarget newProgram" by (rule validTarget_newProgram)
  from union_number_string [OF v, of 0] obtain p' where
    h: "handle (Suc (Suc 0)) (UnionType [NumberKeyword, StringKeyword]) newProgram = Some (Ok (), p')"
    and g: "getOPs p' = getOPs newProgram @ [op_byte OP_Frame, op_byte OP_Number, op_byte OP_String, op_byte OP_Union]"
    and e: "p' = putOPs (getOPs p') newProgram"
    by blast
  have "getOPs newProgram = []" by (simp add: getOPs_def newProgram_def)
  with g have "getOPs p' = [15, 2, 1, 8]" by simp
  with e have "p' = newProgram\<lparr>ops := [15, 2, 1, 8]\<rparr>"
    by (simp add: putOPs_def newProgram_def)
  with h v show ?thesis by simp
qed

section \<open>Symbol lookup\<close>

lemma findByName_None: "findByName nm ss = None \<longleftrightarrow> nm \<notin> sym_name ` set ss"
  by (induction ss) auto

lemma findByName_Some:
  "findByName nm ss = Some k \<Longrightarrow> k < length ss \<and> sym_name (ss ! k) = nm"
  by (induction ss arbitrary: k) (auto split: if_splits)

lemma findByName_first:
  "findByName nm ss = Some k \<Longrightarrow> j < k \<Longrightarrow> sym_name (ss ! j) \<noteq> nm"
proof (induction ss arbitrary: k j)
  case Nil
  then show ?case by simp
next
  case (Cons s ss)
  then show ?case
    by (cases j) (auto split: if_splits)
qed

lemma findByName_append_fresh:
  "findByName nm ss = None \<Longrightarrow> sym_name s = nm \<Longrightarrow> findByName nm (ss @ [s]) = Some (length ss)"
  by (induction ss) (auto split: if_splits)

lemma chain_nonempty [simp]: "chain f \<noteq> []"
  by (cases f) simp

lemma hd_chain [simp]: "hd (chain f) = f"
  by (cases f) simp

lemma findSymbolFrom_Throw:
  "findSymbolFrom f nm = Throw e \<longleftrightarrow> e = UnresolvedSymbol \<and> (\<forall>g \<in> set (chain f). \<not> declares g nm)"
proof (induction f nm rule: findSymbolFrom.induct)
  case (1 c prev i ss nm)
  show ?case
  proof (cases "findByName nm ss")
    case None
    then have d: "\<not> declares (Frame c prev i ss) nm"
      by (simp add: declares_def findByName_None)
    show ?thesis
    proof (cases prev)
      case None
      with \<open>findByName nm ss = None\<close> d show ?thesis by auto
    next
      case (Some f)
      with \<open>findByName nm ss = None\<close> d "1.IH" [OF \<open>findByName nm ss = None\<close> Some]
      show ?thesis by auto
    qed
  next
    case (Some k)
    then have "declares (Frame c prev i ss) nm"
      using findByName_None [of nm ss] by (auto simp: declares_def)
    with Some show ?thesis by auto
  qed
qed

lemma findSymbolFrom_Ok_name: "findSymbolFrom f nm = Ok s \<Longrightarrow> sym_name s = nm"
proof (induction f nm rule: findSymbolFrom.induct)
  case (1 c prev i ss nm)
  then show ?case
    by (auto split: option.splits dest: findByName_Some)
qed


lemma findSymbolFrom_Ok_member:
  "findSymbolFrom f nm = Ok s \<Longrightarrow> \<exists>g \<in> set (chain f). s \<in> set (symbols g)"
proof (induction f nm rule: findSymbolFrom.induct)
  case (1 c prev i ss nm)
  show ?case
  proof (cases "findByName nm ss")
    case None
    with "1.prems" obtain f where pf: "prev = Some f" and r: "findSymbolFrom f nm = Ok s"
      by (auto split: option.splits)
    from "1.IH" [OF None pf r] pf show ?thesis by auto
  next
    case (Some k)
    with "1.prems" have "s = ss ! k" by simp
    moreover from Some have "k < length ss" by (simp add: findByName_Some)
    ultimately show ?thesis by auto
  qed
qed

lemma findSymbolFrom_skip:
  "\<not> declares f nm \<Longrightarrow> findSymbolFrom f nm =
     (case previous f of None \<Rightarrow> Throw UnresolvedSymbol | Some g \<Rightarrow> findSymbolFrom g nm)"
  by (cases f) (auto simp: declares_def findByName_None [symmetric] split: option.splits)

lemma tl_chain: "tl (chain f) = (case previous f of None \<Rightarrow> [] | Some g \<Rightarrow> chain g)"
  by (cases f) simp

section \<open>Entering a routine\<close>

text \<open>
  Claim C10. \<^verbatim>\<open>pushSubroutine\<close> scans only the symbols of the current frame:
  for a name that the current frame does not declare but some strictly
  enclosing frame does, it throws \<open>UnknownRoutine\<close> and leaves the program
  as it was, although \<^verbatim>\<open>findSymbol\<close> resolves the same name to a symbol of an
  enclosing frame.
\<close>

theorem pushSubroutine_ignores_enclosing_frames:
  assumes "\<not> declares (frame p) nm"
    and "\<exists>g \<in> set (tl (chain (frame p))). declares g nm"
  shows "pushSubroutine nm p = (Throw UnknownRoutine, p)
       \<and> (\<exists>s. findSymbol nm p = Ok s \<and> sym_name s = nm
              \<and> (\<exists>g \<in> set (tl (chain (frame p))). s \<in> set (symbols g)))"
proof -
  from assms(1) have n: "findByName nm (symbols (frame p)) = None"
    by (simp add: declares_def findByName_None)
  then have a: "pushSubroutine nm p = (Throw UnknownRoutine, p)"
    by (simp add: pushSubroutine_def)
  from assms(2) obtain f where pf: "previous (frame p) = Some f"
    by (cases "previous (frame p)") (auto simp: tl_chain)
  with assms(2) have "\<not> (\<forall>g \<in> set (chain f). \<not> declares g nm)"
    by (simp add: tl_chain)
  then have "findSymbolFrom f nm \<noteq> Throw UnresolvedSymbol"
    by (simp add: findSymbolFrom_Throw)
  then obtain s where s: "findSymbolFrom f nm = Ok s"
    by (cases "findSymbolFrom f nm") (auto simp: findSymbolFrom_Throw)
  with assms(1) pf have "findSymbol nm p = Ok s"
    by (simp add: findSymbol_def findSymbolFrom_skip)
  moreover from s have "sym_name s = nm" by (rule findSymbolFrom_Ok_name)
  moreover from s pf have "\<exists>g \<in> set (tl (chain (frame p))). s \<in> set (symbols g)"
    by (simp add: tl_chain findSymbolFrom_Ok_member)
  ultimately show ?thesis using a by blast
qed

lemma insideRoutineA_eq:
  "insideRoutineA =
     \<lparr>ops = [], storage = [], storageIndex = 0,
      frame = Frame False
        (Some (Frame False None 0
           [\<lparr>sym_name = ''A'', sym_type = Variable, sym_index = 0, sym_pos = 0,
             sym_declarations = 1, sym_routine = Some 0, sym_frame = 0\<rparr>])) 1 [],
      activeSubroutines = [],
      subroutines = [\<lparr>sub_ops = [], sub_identifier = ''A'', sub_address = 0, sub_pos = 0, sub_type = Type\<rparr>]\<rparr>"
  by (simp add: insideRoutineA_def snd_pushFrame_implicit pushSymbolForRoutine_def pushSymbol_def
      newProgram_def setSymbols_def Let_def)

theorem pushSubroutine_ignores_enclosing_frames_witness:
  "\<not> declares (frame insideRoutineA) ''A''
   \<and> (\<exists>g \<in> set (tl (chain (frame insideRoutineA))). declares g ''A'')
   \<and> pushSubroutine ''A'' insideRoutineA = (Throw UnknownRoutine, insideRoutineA)
   \<and> (\<exists>s. findSymbol ''A'' insideRoutineA = Ok s \<and> sym_routine s = Some 0)"
proof -
  have h1: "\<not> declares (frame insideRoutineA) ''A''"
    by (simp add: insideRoutineA_eq declares_def)
  have h2: "\<exists>g \<in> set (tl (chain (frame insideRoutineA))). declares g ''A''"
    by (simp add: insideRoutineA_eq declares_def)
  have "\<exists>s. findSymbol ''A'' insideRoutineA = Ok s \<and> sym_routine s = Some 0"
    by (simp add: insideRoutineA_eq findSymbol_def)
  with pushSubroutine_ignores_enclosing_frames [OF h1 h2] h1 h2 show ?thesis by blast
qed

section \<open>Leaving a routine that emitted nothing\<close>

lemma enteredA_eq:
  "enteredA =
     \<lparr>ops = [], storage = [], storageIndex = 0,
      frame = Frame False
        (Some (Frame False None 0
           [\<lparr>sym_name = ''A'', sym_type = Variable, sym_index = 0, sym_pos = 0,
             sym_declarations = 1, sym_routine = Some 0, sym_frame = 0\<rparr>])) 1 [],
      activeSubroutines = [0],
      subroutines = [\<lparr>sub_ops = [], sub_identifier = ''A'', sub_address = 0, sub_pos = 0, sub_type = Type\<rparr>]\<rparr>"
  by (simp add: enteredA_def pushSubroutine_def snd_pushFrame_implicit pushSymbolForRoutine_def pushSymbol_def
      newProgram_def setSymbols_def Let_def)

lemma popFrameImplicit_alt:
  "popFrameImplicit p = p\<lparr>frame := (case previous (frame p) of Some f \<Rightarrow> f | None \<Rightarrow> frame p)\<rparr>"
  by (simp add: popFrameImplicit_def split: option.splits)

text \<open>
  Claim C9, as amended. When \<^verbatim>\<open>popSubroutine\<close> is called with a non-empty
  stack of active subroutines whose top routine has an empty buffer, it throws
  \<open>EmptyRoutine\<close> after \<^verbatim>\<open>popFrameImplicit\<close> has run: the program it leaves
  behind has the parent of the current frame as its current frame when there
  is a parent, and the same frame when the current frame is the root; the
  stack of active subroutines and everything else is unchanged.
\<close>

theorem popSubroutine_empty_routine:
  assumes "activeSubroutines p \<noteq> []"
    and "last (activeSubroutines p) < length (subroutines p)"
    and "sub_ops (subroutines p ! last (activeSubroutines p)) = []"
  shows "popSubroutine p =
           (Throw EmptyRoutine,
            p\<lparr>frame := (case previous (frame p) of Some f \<Rightarrow> f | None \<Rightarrow> frame p)\<rparr>)"
  using assms
  by (simp add: popSubroutine_def Let_def popFrameImplicit_alt)

theorem popSubroutine_empty_routine_witness:
  "activeSubroutines enteredA \<noteq> []
   \<and> last (activeSubroutines enteredA) < length (subroutines enteredA)
   \<and> sub_ops (subroutines enteredA ! last (activeSubroutines enteredA)) = []
   \<and> (\<exists>p'. popSubroutine enteredA = (Throw EmptyRoutine, p')
          \<and> previous (frame enteredA) = Some (frame p')
          \<and> frame p' \<noteq> frame enteredA
          \<and> activeSubroutines p' = activeSubroutines enteredA)"
proof -
  have h1: "activeSubroutines enteredA \<noteq> []" by (simp add: enteredA_eq)
  have h2: "last (activeSubroutines enteredA) < length (subroutines enteredA)"
    by (simp add: enteredA_eq)
  have h3: "sub_ops (subroutines enteredA ! last (activeSubroutines enteredA)) = []"
    by (simp add: enteredA_eq)
  have "previous (frame enteredA) \<noteq> None \<and> the (previous (frame enteredA)) \<noteq> frame enteredA"
    by (simp add: enteredA_eq)
  with popSubroutine_empty_routine [OF h1 h2 h3] h1 h2 h3 show ?thesis
    by auto
qed

text \<open>
  The claim as stated, that the current frame has always been replaced by its
  parent, fails when the current frame is the root: after the routine of \<open>A\<close>
  is entered and \<^verbatim>\<open>popFrameImplicit\<close> is called once, \<^verbatim>\<open>popSubroutine\<close>
  throws \<open>EmptyRoutine\<close> and there is no parent to move to.
\<close>

theorem popSubroutine_at_root_counterexample:
  "\<not> (\<forall>p. activeSubroutines p \<noteq> []
          \<and> last (activeSubroutines p) < length (subroutines p)
          \<and> sub_ops (subroutines p ! last (activeSubroutines p)) = []
        \<longrightarrow> (\<exists>p'. popSubroutine p = (Throw EmptyRoutine, p')
               \<and> previous (frame p) = Some (frame p')
               \<and> activeSubroutines p' = activeSubroutines p))"
proof
  assume a: "\<forall>p. activeSubroutines p \<noteq> []
          \<and> last (activeSubroutines p) < length (subroutines p)
          \<and> sub_ops (subroutines p ! last (activeSubroutines p)) = []
        \<longrightarrow> (\<exists>p'. popSubroutine p = (Throw EmptyRoutine, p')
               \<and> previous (frame p) = Some (frame p')
               \<and> activeSubroutines p' = activeSubroutines p)"
  let ?q = "popFrameImplicit enteredA"
  have q: "?q = enteredA\<lparr>frame := Frame False None 0
           [\<lparr>sym_name = ''A'', sym_type = Variable, sym_index = 0, sym_pos = 0,
             sym_declarations = 1, sym_routine = Some 0, sym_frame = 0\<rparr>]\<rparr>"
    by (simp add: enteredA_eq popFrameImplicit_def)
  have "activeSubroutines ?q \<noteq> [] \<and> last (activeSubroutines ?q) < length (subroutines ?q)
          \<and> sub_ops (subroutines ?q ! last (activeSubroutines ?q)) = []"
    by (simp add: q) (simp add: enteredA_eq)
  with a have "\<exists>p'. popSubroutine ?q = (Throw EmptyRoutine, p') \<and> previous (frame ?q) = Some (frame p')"
    by blast
  moreover have "previous (frame ?q) = None" by (simp add: q)
  ultimately show False by simp
qed

section \<open>Frame ids\<close>

lemma fst_pushFrame:
  "fst (pushFrame implicit p) = Frame False (Some (frame p)) (frame_id (frame p) + 1) []"
  by (simp add: pushFrame_def Let_def)

lemma frame_snd_pushFrame: "frame (snd (pushFrame implicit p)) = fst (pushFrame implicit p)"
  by (simp add: pushFrame_def Let_def)

lemma frame_popFrameImplicit_pushFrame:
  "frame (popFrameImplicit (snd (pushFrame implicit p))) = frame p"
  by (cases implicit) (simp_all add: snd_pushFrame_implicit snd_pushFrame_explicit)

lemma frame_pushSymbol:
  "frame_id (frame (snd (pushSymbol nm ty pos p))) = frame_id (frame p)
   \<and> previous (frame (snd (pushSymbol nm ty pos p))) = previous (frame p)"
  by (simp add: pushSymbol_def setSymbols_def Let_def split: option.splits)

lemma frame_pushSymbolForRoutine:
  "frame_id (frame (snd (pushSymbolForRoutine nm ty pos p))) = frame_id (frame p)
   \<and> previous (frame (snd (pushSymbolForRoutine nm ty pos p))) = previous (frame p)"
  using frame_pushSymbol [of nm ty pos p]
  by (cases "pushSymbol nm ty pos p") (simp add: pushSymbolForRoutine_def setSymbols_def Let_def)

lemma word_less_succ: "(x::u32) \<noteq> - 1 \<Longrightarrow> x < x + 1"
  by (metis inc_less_eq_triv_imp linorder_less_linear word_le_less_eq)

text \<open>
  What \<^verbatim>\<open>pushFrame\<close> does with ids. The id of a frame is fixed when
  \<^verbatim>\<open>pushFrame\<close> makes it: it is the id of the parent plus one, so strictly
  greater than the parent's as long as the 32-bit id does not wrap, and the
  parent is kept unchanged behind the new frame. Declaring symbols changes
  neither the id nor the parent of the current frame, and leaving the new
  frame gives the parent back as it was. A sibling frame made after the first
  child is left gets the id of that child.
\<close>

theorem frame_ids:
  "frame (snd (pushFrame implicit p)) = fst (pushFrame implicit p)
   \<and> previous (fst (pushFrame implicit p)) = Some (frame p)
   \<and> frame_id (fst (pushFrame implicit p)) = frame_id (frame p) + 1
   \<and> (frame_id (frame p) \<noteq> - 1 \<longrightarrow> frame_id (frame p) < frame_id (fst (pushFrame implicit p)))
   \<and> frame (popFrameImplicit (snd (pushFrame implicit p))) = frame p
   \<and> frame_id (fst (pushFrame implicit' (popFrameImplicit (snd (pushFrame implicit p)))))
       = frame_id (fst (pushFrame implicit p))
   \<and> frame_id (frame (snd (pushSymbol nm ty pos p))) = frame_id (frame p)
   \<and> previous (frame (snd (pushSymbol nm ty pos p))) = previous (frame p)
   \<and> frame_id (frame (snd (pushSymbolForRoutine nm ty pos p))) = frame_id (frame p)
   \<and> previous (frame (snd (pushSymbolForRoutine nm ty pos p))) = previous (frame p)"
  using frame_pushSymbol [of nm ty pos p] frame_pushSymbolForRoutine [of nm ty pos p]
  by (simp add: fst_pushFrame frame_snd_pushFrame frame_popFrameImplicit_pushFrame word_less_succ)

theorem frame_ids_witness:
  "frame_id (frame newProgram) \<noteq> - 1
   \<and> frame_id (fst (pushFrame True newProgram)) = 1
   \<and> frame_id (frame newProgram) < frame_id (fst (pushFrame True newProgram))
   \<and> frame_id (fst (pushFrame False (popFrameImplicit (snd (pushFrame True newProgram))))) = 1"
proof -
  have h: "frame_id (frame newProgram) \<noteq> - 1" by (simp add: newProgram_def)
  have z: "frame_id (frame newProgram) = 0" by (simp add: newProgram_def)
  from frame_ids [of True newProgram False] h z show ?thesis by simp
qed

text \<open>
  Claim C6 at a concrete input. The claim, and the comment on \<^verbatim>\<open>Frame::id\<close>
  (\<^verbatim>\<open>in a tree the unique id\<close>), say that the id of a frame differs from the id
  of every other frame made during the compilation. In a new program, the
  first child of the root gets id 1; after it is left, the second child of the
  root gets id 1 as well. A type variable declared in the first child and one
  declared in the second are both addressed as frame 1, slot 0.
\<close>

theorem sibling_frames_share_id:
  "frame_id (fst (pushFrame True newProgram)) = 1
   \<and> frame_id (fst (pushFrame True (popFrameImplicit (snd (pushFrame True newProgram))))) = 1
   \<and> (\<exists>s. findSymbol ''T'' (snd (pushSymbol ''T'' TypeVariable 0 (snd (pushFrame True newProgram))))
            = Ok s \<and> sym_frame s = 1 \<and> sym_index s = 0)
   \<and> (\<exists>s. findSymbol ''U''
              (snd (pushSymbol ''U'' TypeVariable 0
                 (snd (pushFrame True
                    (popFrameImplicit
                       (snd (pushSymbol ''T'' TypeVariable 0 (snd (pushFrame True newProgram)))))))))
            = Ok s \<and> sym_frame s = 1 \<and> sym_index s = 0)"
  by (simp add: pushFrame_def popFrameImplicit_def pushSymbol_def setSymbols_def findSymbol_def
      newProgram_def Let_def)

section \<open>The walker keeps the enclosing frames\<close>

lemma andThen_Ok:
  "andThen m f = Some (Ok u, p') \<Longrightarrow> \<exists>q. m = Some (Ok (), q) \<and> f q = Some (Ok u, p')"
  by (cases "(m, f)" rule: andThen.cases) auto

lemma returns_Ok [simp]: "returns p = Some (Ok u, p') \<longleftrightarrow> p' = p"
  by (auto simp: returns_def)

lemma frame_pushAddress [simp]: "frame (pushAddress a p) = frame p"
  by (simp add: pushAddress_def split: option.splits)

lemma frame_pushStorage [simp]: "frame (pushStorage s p) = frame p"
  by (simp add: pushStorage_def registerStorage_def Let_def)

lemma frame_pushSymbolAddress [simp]: "frame (pushSymbolAddress s p) = frame p"
  by (simp add: pushSymbolAddress_def)

lemma previous_setSymbols [simp]: "previous (setSymbols ss f) = previous f"
  by (simp add: setSymbols_def)

lemma previous_pushSymbol [simp]:
  "previous (frame (snd (pushSymbol nm ty pos p))) = previous (frame p)"
  by (simp add: frame_pushSymbol)

lemma previous_pushSymbolForRoutine [simp]:
  "previous (frame (snd (pushSymbolForRoutine nm ty pos p))) = previous (frame p)"
  by (simp add: frame_pushSymbolForRoutine)

lemma previous_typeParameters [simp]:
  "previous (frame (fold (\<lambda>param q. pushOp OP_Var [] (snd (pushSymbol nm ty pos q))) ps p))
     = previous (frame p)"
  by (induction ps arbitrary: p) simp_all

lemma pushSubroutine_Ok:
  "pushSubroutine nm p = (Ok a, p') \<Longrightarrow> previous (frame p') = Some (frame p)"
  by (auto simp: pushSubroutine_def Let_def snd_pushFrame_implicit split: option.splits if_splits)

lemma popSubroutine_Ok:
  "popSubroutine p = (Ok u, p') \<Longrightarrow> previous (frame p) = Some f \<Longrightarrow> frame p' = f"
  by (auto simp: popSubroutine_def Let_def popFrameImplicit_def split: option.splits if_splits)

lemma handleList_parent:
  assumes "\<And>node p u p'. handle n node p = Some (Ok u, p') \<Longrightarrow> previous (frame p') = previous (frame p)"
  shows "handleList n nodes p = Some (Ok u, p') \<Longrightarrow> previous (frame p') = previous (frame p)"
proof (induction nodes arbitrary: p)
  case Nil
  then show ?case by simp
next
  case (Cons x xs)
  from Cons.prems obtain q where q: "handle n x p = Some (Ok (), q)"
    and r: "handleList n xs q = Some (Ok u, p')"
    by (auto dest: andThen_Ok)
  from assms [OF q] Cons.IH [OF r] show ?case by simp
qed

lemma handle_parent:
  "handle n node p = Some (Ok u, p') \<Longrightarrow> previous (frame p') = previous (frame p)"
proof (induction n arbitrary: node p u p')
  case 0
  then show ?case by simp
next
  case (Suc n)
  note IH = Suc.IH
  have IHL: "previous (frame p') = previous (frame p)"
    if "handleList n nodes p = Some (Ok u, p')" for nodes p u p'
    using that by (rule handleList_parent [rotated]) (rule Suc.IH)
  show ?case
  proof (cases node)
    case (SourceFile xs)
    with Suc.prems show ?thesis by (auto dest: IHL)
  next
    case (UnionType xs)
    with Suc.prems obtain q where q: "handleList n xs (snd (pushFrame False p)) = Some (Ok (), q)"
      and r: "p' = popFrameImplicit (pushOp OP_Union [] q)"
      by (auto dest!: andThen_Ok)
    from IHL [OF q] have "previous (frame q) = Some (frame p)"
      by (simp add: snd_pushFrame_explicit)
    with r show ?thesis by (simp add: popFrameImplicit_def)
  next
    case (TypeReference nm)
    with Suc.prems show ?thesis
      by (auto simp: Let_def split: outcome.splits if_splits option.splits)
  next
    case (TypeAliasDeclaration nm pos tps ty)
    obtain k p1 where p1: "pushSymbolForRoutine nm Type pos p = (k, p1)"
      by (cases "pushSymbolForRoutine nm Type pos p")
    then have a: "previous (frame p1) = previous (frame p)"
      using previous_pushSymbolForRoutine [of nm Type pos p] by simp
    show ?thesis
    proof (cases "1 < sym_declarations (symbols (frame p1) ! k)")
      case True
      with Suc.prems TypeAliasDeclaration p1 a show ?thesis by simp
    next
      case False
      with Suc.prems TypeAliasDeclaration p1 obtain ad p2 p4 where
        p2: "pushSubroutine nm p1 = (Ok ad, p2)"
        and p4: "handle n ty (case tps of None \<Rightarrow> p2
                  | Some ps \<Rightarrow> fold (\<lambda>param q. pushOp OP_Var [] (snd (pushSymbol nm TypeVariable pos q))) ps p2)
                 = Some (Ok (), p4)"
        and p5: "popSubroutine p4 = (Ok u, p')"
        by (auto simp: Let_def split: prod.splits outcome.splits dest!: andThen_Ok)
      from IH [OF p4] pushSubroutine_Ok [OF p2] have "previous (frame p4) = Some (frame p1)"
        by (simp split: option.splits)
      from popSubroutine_Ok [OF p5 this] a show ?thesis by simp
    qed
  next
    case (FunctionDeclaration name params ty body)
    show ?thesis
    proof (cases name)
      case None
      with Suc.prems FunctionDeclaration show ?thesis by simp
    next
      case (Some tp)
      obtain ident idpos where tp: "tp = (ident, idpos)" by (cases tp)
      obtain k p1 where p1: "pushSymbolForRoutine ident Function idpos p = (k, p1)"
        by (cases "pushSymbolForRoutine ident Function idpos p")
      then have a: "previous (frame p1) = previous (frame p)"
        using previous_pushSymbolForRoutine [of ident Function idpos p] by simp
      show ?thesis
      proof (cases "1 < sym_declarations (symbols (frame p1) ! k)")
        case True
        with Suc.prems FunctionDeclaration Some tp p1 a show ?thesis by simp
      next
        case False
        with Suc.prems FunctionDeclaration Some tp p1 obtain ad p2 p3 p4 where
          p2: "pushSubroutine ident p1 = (Ok ad, p2)"
          and p3: "handleList n (map (\<lambda>param. node) params) p2 = Some (Ok (), p3)"
          and p4: "(case ty of Some t \<Rightarrow> handle n t p3 | None \<Rightarrow> returns (pushOp OP_Unknown [] p3))
                     = Some (Ok (), p4)"
          and p5: "popSubroutine (pushOp OP_Function [] p4) = (Ok u, p')"
          by (auto simp: Let_def split: prod.splits outcome.splits dest!: andThen_Ok)
        from p4 have "previous (frame p4) = previous (frame p3)"
          by (cases ty) (auto dest: IH)
        with IHL [OF p3] pushSubroutine_Ok [OF p2]
        have "previous (frame (pushOp OP_Function [] p4)) = Some (frame p1)" by simp
        from popSubroutine_Ok [OF p5 this] a show ?thesis by simp
      qed
    qed
  next
    case (VariableStatement xs)
    with Suc.prems show ?thesis by (auto dest: IHL)
  next
    case (VariableDeclaration name ty init)
    show ?thesis
    proof (cases name)
      case None
      with Suc.prems VariableDeclaration show ?thesis by simp
    next
      case (Some tp)
      obtain ident idpos where tp: "tp = (ident, idpos)" by (cases tp)
      obtain k p1 where p1: "pushSymbolForRoutine ident Variable idpos p = (k, p1)"
        by (cases "pushSymbolForRoutine ident Variable idpos p")
      then have a: "previous (frame p1) = previous (frame p)"
        using previous_pushSymbolForRoutine [of ident Variable idpos p] by simp
      show ?thesis
      proof (cases "1 < sym_declarations (symbols (frame p1) ! k)")
        case True
        with Suc.prems VariableDeclaration Some tp p1 a show ?thesis by simp
      next
        case False
        with Suc.prems VariableDeclaration Some tp p1 obtain ad p2 p3 p4 where
          p2: "pushSubroutine ident p1 = (Ok ad, p2)"
          and p3: "(case ty of Some t \<Rightarrow> handle n t p2 | None \<Rightarrow> returns (pushOp OP_Unknown [] p2))
                     = Some (Ok (), p3)"
          and p4: "popSubroutine p3 = (Ok (), p4)"
          and p5: "(case init of None \<Rightarrow> returns p4
                    | Some i \<Rightarrow> andThen (handle n i p4)
                        (\<lambda>p5. returns (pushOp OP_Assign [] (pushAddress ad (pushOp OP_Call [] p5)))))
                     = Some (Ok u, p')"
          by (auto simp: Let_def split: prod.splits outcome.splits dest!: andThen_Ok)
        from p3 have "previous (frame p3) = previous (frame p2)"
          by (cases ty) (auto dest: IH)
        with pushSubroutine_Ok [OF p2] have "previous (frame p3) = Some (frame p1)" by simp
        from popSubroutine_Ok [OF p4 this] have b: "frame p4 = frame p1" .
        from p5 have "previous (frame p') = previous (frame p4)"
          by (cases init) (auto dest!: andThen_Ok dest: IH)
        with a b show ?thesis by simp
      qed
    qed
  qed (use Suc.prems in auto)
qed


section \<open>Declaring an alias twice\<close>

lemma pushSymbolForRoutine_fresh:
  assumes "findByName nm (symbols (frame p)) = None"
  shows "pushSymbolForRoutine nm ty pos p =
     (length (symbols (frame p)),
      p\<lparr>subroutines := subroutines p @
            [\<lparr>sub_ops = [], sub_identifier = nm, sub_address = of_nat (length (subroutines p)),
              sub_pos = pos, sub_type = ty\<rparr>],
        frame := setSymbols
          (symbols (frame p) @
            [\<lparr>sym_name = nm, sym_type = Variable,
              sym_index = of_nat (length (symbols (frame p))), sym_pos = pos,
              sym_declarations = 1, sym_routine = Some (length (subroutines p)),
              sym_frame = frame_id (frame p)\<rparr>]) (frame p)\<rparr>)"
  using assms
  by (simp add: pushSymbolForRoutine_def pushSymbol_def Let_def setSymbols_def)

lemma pushSymbolForRoutine_known:
  assumes "findByName nm (symbols (frame p)) = Some k"
    and "sym_routine (symbols (frame p) ! k) \<noteq> None"
  shows "pushSymbolForRoutine nm ty pos p =
     (k, p\<lparr>frame := setSymbols
            ((symbols (frame p))[k := (symbols (frame p) ! k)
               \<lparr>sym_declarations := sym_declarations (symbols (frame p) ! k) + 1\<rparr>]) (frame p)\<rparr>)"
  using assms findByName_Some [OF assms(1)]
  by (auto simp: pushSymbolForRoutine_def pushSymbol_def Let_def setSymbols_def)

lemma first_alias_declaration:
  assumes "findByName nm (symbols (frame p)) = None"
    and "handle n (TypeAliasDeclaration nm pos tps ty) p = Some (Ok u, p1)"
  shows "frame p1 = setSymbols
          (symbols (frame p) @
            [\<lparr>sym_name = nm, sym_type = Variable,
              sym_index = of_nat (length (symbols (frame p))), sym_pos = pos,
              sym_declarations = 1, sym_routine = Some (length (subroutines p)),
              sym_frame = frame_id (frame p)\<rparr>]) (frame p)"
proof (cases n)
  case 0
  with assms(2) show ?thesis by simp
next
  case (Suc m)
  let ?q = "snd (pushSymbolForRoutine nm Type pos p)"
  from assms(2) Suc pushSymbolForRoutine_fresh [OF assms(1), of Type pos]
  obtain ad p2 p4 where
    p2: "pushSubroutine nm ?q = (Ok ad, p2)"
    and p4: "handle m ty (case tps of None \<Rightarrow> p2
              | Some ps \<Rightarrow> fold (\<lambda>param q. pushOp OP_Var [] (snd (pushSymbol nm TypeVariable pos q))) ps p2)
             = Some (Ok (), p4)"
    and p5: "popSubroutine p4 = (Ok u, p1)"
    by (auto simp: Let_def setSymbols_def split: prod.splits outcome.splits dest!: andThen_Ok)
  from handle_parent [OF p4] pushSubroutine_Ok [OF p2] have "previous (frame p4) = Some (frame ?q)"
    by (simp split: option.splits)
  from popSubroutine_Ok [OF p5 this] show ?thesis
    by (simp add: pushSymbolForRoutine_fresh [OF assms(1)])
qed

text \<open>
  Claim C5. Let an alias be declared for the first time in the current frame
  (no symbol of that name there) and let its declaration compile, whatever its
  type parameters and aliased type. Then the alias sits at the slot that was
  free before, with declaration count 1, and a second declaration of the same
  name, with any position, type parameters and aliased type, returns that
  same symbol, succeeds with one unit of fuel, and changes the program in
  exactly one place: the declaration count of that symbol becomes 2. The
  registry of subroutines, with every routine's bytecode, the main buffer and
  the stack of active subroutines are as before.
\<close>

theorem alias_redeclaration:
  assumes "findByName nm (symbols (frame p)) = None"
    and "handle n (TypeAliasDeclaration nm pos tps ty) p = Some (Ok (), p1)"
  shows "\<exists>k p2. k = length (symbols (frame p))
      \<and> findByName nm (symbols (frame p1)) = Some k
      \<and> sym_index (symbols (frame p1) ! k) = of_nat k
      \<and> sym_declarations (symbols (frame p1) ! k) = 1
      \<and> fst (pushSymbolForRoutine nm Type pos' p1) = k
      \<and> handle (Suc m) (TypeAliasDeclaration nm pos' tps' ty') p1 = Some (Ok (), p2)
      \<and> p2 = p1\<lparr>frame := setSymbols
                 ((symbols (frame p1))[k := (symbols (frame p1) ! k)\<lparr>sym_declarations := 2\<rparr>])
                 (frame p1)\<rparr>
      \<and> subroutines p2 = subroutines p1 \<and> ops p2 = ops p1
      \<and> activeSubroutines p2 = activeSubroutines p1"
proof -
  let ?k = "length (symbols (frame p))"
  let ?s = "\<lparr>sym_name = nm, sym_type = Variable,
              sym_index = of_nat (length (symbols (frame p))), sym_pos = pos,
              sym_declarations = 1, sym_routine = Some (length (subroutines p)),
              sym_frame = frame_id (frame p)\<rparr>"
  from first_alias_declaration [OF assms] have f: "symbols (frame p1) = symbols (frame p) @ [?s]"
    by (simp add: setSymbols_def)
  from assms(1) have k: "findByName nm (symbols (frame p1)) = Some ?k"
    by (simp add: f findByName_append_fresh)
  have s: "symbols (frame p1) ! ?k = ?s" by (simp add: f)
  then have r: "sym_routine (symbols (frame p1) ! ?k) \<noteq> None" by simp
  note known = pushSymbolForRoutine_known [OF k r, of Type pos']
  have "handle (Suc m) (TypeAliasDeclaration nm pos' tps' ty') p1 =
        Some (Ok (), p1\<lparr>frame := setSymbols
                 ((symbols (frame p1))[?k := (symbols (frame p1) ! ?k)\<lparr>sym_declarations := 2\<rparr>])
                 (frame p1)\<rparr>)"
    by (simp add: known returns_def) (simp add: s f setSymbols_def)
  with k s known show ?thesis by simp
qed

theorem alias_redeclaration_witness:
  "findByName ''A'' (symbols (frame newProgram)) = None
   \<and> (\<exists>p1. handle 2 (TypeAliasDeclaration ''A'' 0 None NumberKeyword) newProgram = Some (Ok (), p1)
        \<and> sub_ops (subroutines p1 ! 0) = [op_byte OP_Number, op_byte OP_Return]
        \<and> (\<exists>p2. handle 2 (TypeAliasDeclaration ''A'' 7 None StringKeyword) p1 = Some (Ok (), p2)
              \<and> sym_declarations (symbols (frame p2) ! 0) = 2
              \<and> subroutines p2 = subroutines p1))"
proof -
  let ?p1 = "\<lparr>ops = [], storage = [], storageIndex = 0,
      frame = Frame False None 0
        [\<lparr>sym_name = ''A'', sym_type = Variable, sym_index = 0, sym_pos = 0,
          sym_declarations = 1, sym_routine = Some 0, sym_frame = 0\<rparr>],
      activeSubroutines = [],
      subroutines = [\<lparr>sub_ops = [2, 17], sub_identifier = ''A'', sub_address = 0,
                      sub_pos = 0, sub_type = Type\<rparr>]\<rparr>"
  have h1: "findByName ''A'' (symbols (frame newProgram)) = None"
    by (simp add: newProgram_def)
  have h2: "handle 2 (TypeAliasDeclaration ''A'' 0 None NumberKeyword) newProgram = Some (Ok (), ?p1)"
    by (simp add: eval_nat_numeral newProgram_def pushSymbolForRoutine_def pushSymbol_def
        setSymbols_def pushSubroutine_def snd_pushFrame_implicit returns_def pushOp_def
        getOPs_def putOPs_def popSubroutine_def popFrameImplicit_def Let_def)
  from alias_redeclaration [OF h1 h2, of 7 1 None StringKeyword] h1 h2 show ?thesis
    by (simp add: eval_nat_numeral setSymbols_def)
qed

section \<open>Scope isolation\<close>

lemma chain_child [simp]: "chain (Frame c (Some f) i ss) = Frame c (Some f) i ss # chain f"
  by simp

lemma findSymbol_Throw:
  "findSymbol nm p = Throw e \<longleftrightarrow> e = UnresolvedSymbol \<and> (\<forall>g \<in> set (chain (frame p)). \<not> declares g nm)"
  by (simp add: findSymbol_def findSymbolFrom_Throw)

lemma chain_setSymbols: "chain (setSymbols ss f) = setSymbols ss f # tl (chain f)"
  by (cases f) (simp add: setSymbols_def)

lemma declares_setSymbols [simp]: "declares (setSymbols ss f) nm \<longleftrightarrow> nm \<in> sym_name ` set ss"
  by (simp add: declares_def setSymbols_def)

lemma declares_Frame [simp]: "declares (Frame c prev i ss) nm \<longleftrightarrow> nm \<in> sym_name ` set ss"
  by (simp add: declares_def)

lemma set_chain: "set (chain f) = insert f (set (tl (chain f)))"
  by (cases f) simp

lemma symbols_setSymbols [simp]: "symbols (setSymbols ss f) = ss"
  by (simp add: setSymbols_def)

lemma frame_id_setSymbols [simp]: "frame_id (setSymbols ss f) = frame_id f"
  by (simp add: setSymbols_def)

lemma pushSubroutine_last:
  assumes "symbols (frame p) = ss @ [s]" and "sym_name s = nm" and "nm \<notin> sym_name ` set ss"
    and "sym_routine s = Some r" and "r < length (subroutines p)"
  shows "pushSubroutine nm p =
     (Ok (sub_address (subroutines p ! r)),
      p\<lparr>frame := Frame False (Some (frame p)) (frame_id (frame p) + 1) [],
        activeSubroutines := activeSubroutines p @ [r]\<rparr>)"
proof -
  from assms(2,3) have "findByName nm (ss @ [s]) = Some (length ss)"
    by (simp add: findByName_append_fresh findByName_None)
  with assms show ?thesis
    by (simp add: pushSubroutine_def snd_pushFrame_implicit Let_def)
qed

lemma sibling_isolation:
  assumes ab: "a \<noteq> b" and ta: "t \<noteq> a" and tb: "t \<noteq> b"
    and fa: "\<not> declares (frame p) a" and fb: "\<not> declares (frame p) b"
    and ft: "\<forall>g \<in> set (chain (frame p)). \<not> declares g t"
  shows "\<exists>ad p2 s p5 ad' p7.
      pushSubroutine a (snd (pushSymbolForRoutine a Type pa p)) = (Ok ad, p2)
    \<and> findSymbol t (snd (pushSymbol t TypeVariable pa p2)) = Ok s \<and> sym_name s = t
    \<and> popSubroutine (pushOp OP_Number [] (pushOp OP_Var [] (snd (pushSymbol t TypeVariable pa p2)))) = (Ok (), p5)
    \<and> pushSubroutine b (snd (pushSymbolForRoutine b Type pb p5)) = (Ok ad', p7)
    \<and> findSymbol t p7 = Throw UnresolvedSymbol"
proof -
  let ?ss = "symbols (frame p)"
  let ?n = "length (subroutines p)"
  define sa where "sa = \<lparr>sym_name = a, sym_type = Variable, sym_index = of_nat (length ?ss),
     sym_pos = pa, sym_declarations = 1, sym_routine = Some ?n, sym_frame = frame_id (frame p)\<rparr>"
  define ra where "ra = \<lparr>sub_ops = [], sub_identifier = a, sub_address = of_nat ?n,
     sub_pos = pa, sub_type = Type\<rparr>"
  define p1 where "p1 = p\<lparr>subroutines := subroutines p @ [ra], frame := setSymbols (?ss @ [sa]) (frame p)\<rparr>"
  from fa have na: "findByName a ?ss = None" by (simp add: declares_def findByName_None)
  have e1: "snd (pushSymbolForRoutine a Type pa p) = p1"
    by (simp add: pushSymbolForRoutine_fresh [OF na] p1_def sa_def ra_def)
  define p2 where "p2 = p1\<lparr>frame := Frame False (Some (frame p1)) (frame_id (frame p1) + 1) [],
        activeSubroutines := activeSubroutines p1 @ [?n]\<rparr>"
  have e2: "pushSubroutine a p1 = (Ok (of_nat ?n), p2)"
    using fa pushSubroutine_last [of p1 ?ss sa a ?n]
    by (simp add: p1_def p2_def sa_def ra_def declares_def)
  define st where "st = \<lparr>sym_name = t, sym_type = Variable, sym_index = 0,
     sym_pos = pa, sym_declarations = 1, sym_routine = None, sym_frame = frame_id (frame p1) + 1\<rparr>"
  define p3 where "p3 = p2\<lparr>frame := Frame False (Some (frame p1)) (frame_id (frame p1) + 1) [st]\<rparr>"
  have e3: "snd (pushSymbol t TypeVariable pa p2) = p3"
    by (simp add: pushSymbol_def p2_def p3_def st_def setSymbols_def Let_def)
  have e4: "findSymbol t p3 = Ok st"
    by (simp add: findSymbol_def p3_def st_def)
  define p5 where "p5 = p1\<lparr>subroutines := subroutines p @
       [ra\<lparr>sub_ops := [op_byte OP_Var, op_byte OP_Number, op_byte OP_Return]\<rparr>]\<rparr>"
  have e5: "popSubroutine (pushOp OP_Number [] (pushOp OP_Var [] p3)) = (Ok (), p5)"
    by (simp add: popSubroutine_def pushOp_def getOPs_def putOPs_def p3_def p2_def p1_def p5_def
        ra_def Let_def popFrameImplicit_def)
  define sb where "sb = \<lparr>sym_name = b, sym_type = Variable, sym_index = of_nat (Suc (length ?ss)),
     sym_pos = pb, sym_declarations = 1, sym_routine = Some (Suc ?n), sym_frame = frame_id (frame p)\<rparr>"
  define rb where "rb = \<lparr>sub_ops = [], sub_identifier = b, sub_address = of_nat (Suc ?n),
     sub_pos = pb, sub_type = Type\<rparr>"
  define p6 where "p6 = p5\<lparr>subroutines := subroutines p5 @ [rb],
       frame := setSymbols (?ss @ [sa, sb]) (frame p)\<rparr>"
  from fb ab have nb: "findByName b (symbols (frame p5)) = None"
    by (simp add: p5_def p1_def findByName_None declares_def sa_def)
  have e6: "snd (pushSymbolForRoutine b Type pb p5) = p6"
    by (simp add: pushSymbolForRoutine_fresh [OF nb] p6_def)
       (simp add: p5_def p1_def sb_def rb_def setSymbols_def)
  define p7 where "p7 = p6\<lparr>frame := Frame False (Some (frame p6)) (frame_id (frame p6) + 1) [],
        activeSubroutines := activeSubroutines p6 @ [Suc ?n]\<rparr>"
  have e7: "pushSubroutine b p6 = (Ok (of_nat (Suc ?n)), p7)"
    using fb ab pushSubroutine_last [of p6 "?ss @ [sa]" sb b "Suc ?n"]
    by (simp add: p6_def p7_def p5_def p1_def sa_def sb_def rb_def declares_def nth_append)
  have "\<forall>g \<in> set (chain (frame p7)). \<not> declares g t"
    using ft ta tb
    by (simp add: p7_def p6_def chain_setSymbols sa_def sb_def declares_def)
       (metis chain_nonempty list.set_sel(1) hd_chain list.set_sel(2))
  then have e8: "findSymbol t p7 = Throw UnresolvedSymbol"
    by (simp add: findSymbol_Throw)
  from e2 e3 e4 e5 e6 e7 e8 show ?thesis
    by (simp add: e1 st_def)
qed


lemma sibling_alias_source:
  assumes ab: "a \<noteq> b" and ta: "t \<noteq> a" and tb: "t \<noteq> b"
  shows "\<exists>p'. handle (Suc (Suc (Suc n)))
           (SourceFile [TypeAliasDeclaration a pa (Some [tp]) NumberKeyword,
                        TypeAliasDeclaration b pb None (TypeReference t)]) newProgram
         = Some (Throw UnresolvedSymbol, p')"
  using assms
  by (simp add: newProgram_def pushSymbolForRoutine_def pushSymbol_def
        setSymbols_def pushSubroutine_def snd_pushFrame_implicit returns_def pushOp_def
        getOPs_def putOPs_def popSubroutine_def popFrameImplicit_def Let_def findSymbol_def)

text \<open>
  Claim C8. \<^verbatim>\<open>findSymbol\<close> fails, and then with \<open>UnresolvedSymbol\<close>, exactly
  when no frame on the chain from the current frame to the root declares the
  name; when it succeeds, the symbol has that name and belongs to a frame of
  the chain; a symbol of the current frame wins, and otherwise the lookup is
  the lookup from the parent frame.

  In particular, for two sibling aliases \<open>a\<close> and \<open>b\<close> declared in the same
  frame and a name \<open>t\<close> unknown to the enclosing chain: when the routine of
  \<open>a\<close> is entered and \<open>t\<close> is declared there as a type variable, \<open>t\<close>
  resolves inside that routine; once that routine is left and the routine of
  \<open>b\<close> is entered, resolving \<open>t\<close> throws \<open>UnresolvedSymbol\<close>. The same
  holds at the level of source units: compiling \<^verbatim>\<open>type a<tp> = number\<close>
  followed by \<^verbatim>\<open>type b = t\<close> ends with \<open>UnresolvedSymbol\<close>.
\<close>

theorem scope_isolation:
  assumes "a \<noteq> b" and "t \<noteq> a" and "t \<noteq> b"
    and "\<not> declares (frame p) a" and "\<not> declares (frame p) b"
    and "\<forall>g \<in> set (chain (frame p)). \<not> declares g t"
  shows "(findSymbol nm q = Throw UnresolvedSymbol) = (\<forall>g \<in> set (chain (frame q)). \<not> declares g nm)
    \<and> (\<forall>e. findSymbol nm q = Throw e \<longrightarrow> e = UnresolvedSymbol)
    \<and> (\<forall>s. findSymbol nm q = Ok s \<longrightarrow> sym_name s = nm \<and> (\<exists>g \<in> set (chain (frame q)). s \<in> set (symbols g)))
    \<and> (declares (frame q) nm \<longrightarrow> (\<exists>s \<in> set (symbols (frame q)). findSymbol nm q = Ok s))
    \<and> (\<not> declares (frame q) nm \<longrightarrow>
          findSymbol nm q = (case previous (frame q) of None \<Rightarrow> Throw UnresolvedSymbol
                              | Some f \<Rightarrow> findSymbolFrom f nm))
    \<and> (\<exists>ad p2 s p5 ad' p7.
          pushSubroutine a (snd (pushSymbolForRoutine a Type pa p)) = (Ok ad, p2)
        \<and> findSymbol t (snd (pushSymbol t TypeVariable pa p2)) = Ok s \<and> sym_name s = t
        \<and> popSubroutine (pushOp OP_Number [] (pushOp OP_Var [] (snd (pushSymbol t TypeVariable pa p2))))
            = (Ok (), p5)
        \<and> pushSubroutine b (snd (pushSymbolForRoutine b Type pb p5)) = (Ok ad', p7)
        \<and> findSymbol t p7 = Throw UnresolvedSymbol)
    \<and> (\<exists>p'. handle (Suc (Suc (Suc n)))
           (SourceFile [TypeAliasDeclaration a pa (Some [tp]) NumberKeyword,
                        TypeAliasDeclaration b pb None (TypeReference t)]) newProgram
         = Some (Throw UnresolvedSymbol, p'))"
proof -
  have c1: "(findSymbol nm q = Throw UnresolvedSymbol) = (\<forall>g \<in> set (chain (frame q)). \<not> declares g nm)"
    by (simp add: findSymbol_Throw)
  have c2: "\<forall>e. findSymbol nm q = Throw e \<longrightarrow> e = UnresolvedSymbol"
    by (simp add: findSymbol_Throw)
  have c3: "\<forall>s. findSymbol nm q = Ok s \<longrightarrow> sym_name s = nm \<and> (\<exists>g \<in> set (chain (frame q)). s \<in> set (symbols g))"
    by (auto simp: findSymbol_def dest: findSymbolFrom_Ok_name findSymbolFrom_Ok_member)
  have c4: "declares (frame q) nm \<longrightarrow> (\<exists>s \<in> set (symbols (frame q)). findSymbol nm q = Ok s)"
  proof
    assume "declares (frame q) nm"
    then obtain k where k: "findByName nm (symbols (frame q)) = Some k"
      using findByName_None [of nm "symbols (frame q)"] by (auto simp: declares_def)
    then have "findSymbol nm q = Ok (symbols (frame q) ! k)"
      by (cases "frame q") (simp add: findSymbol_def)
    with findByName_Some [OF k] show "\<exists>s \<in> set (symbols (frame q)). findSymbol nm q = Ok s"
      by auto
  qed
  have c5: "\<not> declares (frame q) nm \<longrightarrow>
          findSymbol nm q = (case previous (frame q) of None \<Rightarrow> Throw UnresolvedSymbol
                              | Some f \<Rightarrow> findSymbolFrom f nm)"
    by (simp add: findSymbol_def findSymbolFrom_skip)
  note c6 = sibling_isolation [OF assms, of pa pb]
  note c7 = sibling_alias_source [OF assms(1-3), of n pa tp pb]
  from c1 c2 c3 c4 c5 c6 c7 show ?thesis by blast
qed


theorem scope_isolation_witness:
  "\<not> declares (frame newProgram) ''A'' \<and> \<not> declares (frame newProgram) ''B''
   \<and> chain (frame newProgram) = [Frame False None 0 []]
   \<and> (\<exists>ad p2 s p5 ad' p7.
          pushSubroutine ''A'' (snd (pushSymbolForRoutine ''A'' Type 0 newProgram)) = (Ok ad, p2)
        \<and> findSymbol ''T'' (snd (pushSymbol ''T'' TypeVariable 0 p2)) = Ok s \<and> sym_name s = ''T''
        \<and> popSubroutine (pushOp OP_Number [] (pushOp OP_Var [] (snd (pushSymbol ''T'' TypeVariable 0 p2))))
            = (Ok (), p5)
        \<and> pushSubroutine ''B'' (snd (pushSymbolForRoutine ''B'' Type 0 p5)) = (Ok ad', p7)
        \<and> findSymbol ''T'' p7 = Throw UnresolvedSymbol)
   \<and> (\<exists>p'. handle 3
           (SourceFile [TypeAliasDeclaration ''A'' 0 (Some [Unhandled]) NumberKeyword,
                        TypeAliasDeclaration ''B'' 0 None (TypeReference ''T'')]) newProgram
         = Some (Throw UnresolvedSymbol, p'))"
proof -
  have h1: "''A'' \<noteq> ''B''" and h2: "''T'' \<noteq> ''A''" and h3: "''T'' \<noteq> ''B''" by simp_all
  have h4: "\<not> declares (frame newProgram) ''A''" and h5: "\<not> declares (frame newProgram) ''B''"
    by (simp_all add: newProgram_def)
  have c: "chain (frame newProgram) = [Frame False None 0 []]"
    by (simp add: newProgram_def)
  then have h6: "\<forall>g \<in> set (chain (frame newProgram)). \<not> declares g ''T''" by simp
  have n: "(3::nat) = Suc (Suc (Suc 0))" by simp
  from scope_isolation [OF h1 h2 h3 h4 h5 h6, where nm = "''T''" and q = newProgram
      and pa = 0 and pb = 0 and n = 0 and tp = Unhandled] h4 h5 c
  show ?thesis unfolding n by blast
qed

section \<open>Evaluating the compiler on concrete inputs\<close>

lemmas walker_defs = newProgram_def pushSymbolForRoutine_def pushSymbol_def
        setSymbols_def pushSubroutine_def snd_pushFrame_implicit snd_pushFrame_explicit returns_def pushOp_def
        getOPs_def putOPs_def popSubroutine_def popFrameImplicit_def Let_def findSymbol_def
        pushAddress_def pushSymbolAddress_def writeUint32_def u32le_def pushStorage_def registerStorage_def

text \<open>
  Claim C3 at a concrete input. Registering the payload \<^verbatim>\<open>a\<close> twice in a new
  program returns the offsets 5 and 8 and stores the payload twice.
\<close>

theorem registerStorage_twice:
  "fst (registerStorage ''a'' newProgram) = 5
   \<and> fst (registerStorage ''a'' (snd (registerStorage ''a'' newProgram))) = 8
   \<and> storage (snd (registerStorage ''a'' (snd (registerStorage ''a'' newProgram)))) = [''a'', ''a'']"
  by (simp add: registerStorage_def newProgram_def Let_def)

text \<open>
  Claim C1 at a concrete input. The unit \<^verbatim>\<open>type A = B; type B = number\<close>, in
  which \<open>A\<close> refers to the alias \<open>B\<close> declared after it, does not compile:
  the walker throws \<open>UnresolvedSymbol\<close>. With the two declarations swapped
  the unit compiles, and in the binary the operand of the call in \<open>A\<close> is 5,
  the offset of the first opcode of \<open>B\<close>, while the jump target 13 is the
  header plus the lengths of the two routines.
\<close>

theorem forward_reference_unresolved:
  "(\<exists>p'. handle 3 (SourceFile [TypeAliasDeclaration ''A'' 0 None (TypeReference ''B''),
                              TypeAliasDeclaration ''B'' 0 None NumberKeyword]) newProgram
          = Some (Throw UnresolvedSymbol, p'))
   \<and> (\<exists>p'. handle 3 (SourceFile [TypeAliasDeclaration ''B'' 0 None NumberKeyword,
                                TypeAliasDeclaration ''A'' 0 None (TypeReference ''B'')]) newProgram
          = Some (Ok (), p')
        \<and> map_option fst (build p')
            = Some [op_byte OP_Jump, 13, 0, 0, 0,
                    op_byte OP_Number, op_byte OP_Return,
                    op_byte OP_Call, 5, 0, 0, 0, op_byte OP_Return])"
  apply (rule conjI)
   apply (simp add: eval_nat_numeral walker_defs)
  apply (simp add: eval_nat_numeral walker_defs)
  apply (simp add: build_def setFinalBinaryAddress_def readUint32_def writeUint32_def u32le_def
      setFinalBinaryAddressFrom.simps linkRoutinesFrom.simps)
  done

text \<open>
  Claim C4 at a concrete input. A symbol declared with kind \<^verbatim>\<open>TypeVariable\<close>
  is stored with kind \<^verbatim>\<open>Variable\<close> and without routine; a type reference to
  it emits \<^verbatim>\<open>Call\<close>, not \<^verbatim>\<open>Loads\<close>, and then dereferences the null routine.
  So does the unit \<^verbatim>\<open>type A<T> = A\<close>, whose reference resolves to the type
  variable that the walker declares under the alias's name.
\<close>

theorem type_variable_reference:
  "(\<exists>s. findSymbol ''T'' (snd (pushSymbol ''T'' TypeVariable 0 newProgram)) = Ok s
        \<and> sym_type s = Variable \<and> sym_routine s = None)
   \<and> handle 1 (TypeReference ''T'') (snd (pushSymbol ''T'' TypeVariable 0 newProgram))
       = Some (Throw InvalidPointer, pushOp OP_Call [] (snd (pushSymbol ''T'' TypeVariable 0 newProgram)))
   \<and> (\<exists>p'. handle 3 (SourceFile [TypeAliasDeclaration ''A'' 0 (Some [Unhandled]) (TypeReference ''A'')])
             newProgram = Some (Throw InvalidPointer, p')
          \<and> getOPs p' = [op_byte OP_Var, op_byte OP_Call])"
  apply (intro conjI)
    apply (simp add: walker_defs)
   apply (simp add: walker_defs)
  apply (simp add: eval_nat_numeral walker_defs)
  done


text \<open>
  Claim C2 at a concrete input. \<^verbatim>\<open>pushOp(OP::Loads)\<close> followed by
  \<^verbatim>\<open>pushSymbolAddress\<close> emits nine bytes: the opcode, the frame id and the
  slot index. The rewriting pass skips four bytes after \<^verbatim>\<open>Loads\<close> and then
  reads the four bytes of the slot index, at positions 5 to 8, as opcodes.
  When the low byte of the slot index is the byte of \<^verbatim>\<open>Call\<close>, the pass takes
  it for a call and reads its operand beyond the end of the buffer.
\<close>

theorem loads_operand_read_as_opcodes:
  "getOPs (pushSymbolAddress (typeVariableAt 1 0) (pushOp OP_Loads [] newProgram))
     = [op_byte OP_Loads, 1, 0, 0, 0, 0, 0, 0, 0]
   \<and> opcodeReads [] (getOPs (pushSymbolAddress (typeVariableAt 1 0) (pushOp OP_Loads [] newProgram)))
     = Some [0, 5, 6, 7, 8]
   \<and> getOPs (pushSymbolAddress (typeVariableAt 1 (ucast (op_byte OP_Call))) (pushOp OP_Loads [] newProgram))
     = [op_byte OP_Loads, 1, 0, 0, 0, op_byte OP_Call, 0, 0, 0]
   \<and> setFinalBinaryAddress []
        (getOPs (pushSymbolAddress (typeVariableAt 1 (ucast (op_byte OP_Call))) (pushOp OP_Loads [] newProgram)))
     = None"
  apply (intro conjI)
     apply (simp add: walker_defs typeVariableAt_def)
    apply (simp add: walker_defs typeVariableAt_def opcodeReads_def setFinalBinaryAddressFrom.simps)
   apply (simp add: walker_defs typeVariableAt_def)
  apply (simp add: walker_defs typeVariableAt_def setFinalBinaryAddress_def readUint32_def
      setFinalBinaryAddressFrom.simps)
  done

section \<open>Linking\<close>

lemma length_u32le [simp]: "length (u32le v) = 4"
  by (simp add: u32le_def)

lemma length_u16le [simp]: "length (u16le v) = 2"
  by (simp add: u16le_def)

lemma le_word_u32le [simp]: "le_word (u32le v) = v"
  apply (simp add: u32le_def)
  apply (rule bit_word_eqI)
  apply (auto simp: bit_simps)
  subgoal for n by (cases "24 \<le> n") auto
  done

lemma op_byte_inj: "op_byte a = op_byte b \<longleftrightarrow> a = b"
  by (cases a; cases b) simp_all


declare setFinalBinaryAddressFrom.simps [simp del]

lemma assemble_Nil [simp]: "assemble [] = []"
  by (simp add: assemble_def)

lemma assemble_Cons [simp]: "assemble (it # its) = encode it @ assemble its"
  by (simp add: assemble_def)

lemma assemble_append [simp]: "assemble (xs @ ys) = assemble xs @ assemble ys"
  by (simp add: assemble_def)

lemma length_encode_relink [simp]: "length (encode (relink addr it)) = length (encode it)"
  by (cases it) simp_all

lemma length_assemble_relink [simp]:
  "length (assemble (map (relink addr) items)) = length (assemble items)"
  by (induction items) simp_all

lemma pass_step_plain:
  assumes "\<not> takesAddress op" and "op \<noteq> OP_Loads"
  shows "setFinalBinaryAddressFrom subs (length pre + Suc n) (length pre) (pre @ op_byte op # rest)
       = map_option (\<lambda>(visited, out). (length pre # visited, out))
           (setFinalBinaryAddressFrom subs (length pre + Suc n) (length (pre @ [op_byte op]))
              ((pre @ [op_byte op]) @ rest))"
  using assms
  by (subst setFinalBinaryAddressFrom.simps) (simp add: takesAddress_def op_byte_inj del: op_byte.simps)

lemma pass_step_literal:
  assumes "takesAddress op" and "op \<noteq> OP_Call"
  shows "setFinalBinaryAddressFrom subs (length pre + Suc n) (length pre) (pre @ op_byte op # u32le a @ rest)
       = map_option (\<lambda>(visited, out). (length pre # visited, out))
           (setFinalBinaryAddressFrom subs (length pre + Suc n) (length (pre @ op_byte op # u32le a))
              ((pre @ op_byte op # u32le a) @ rest))"
  using assms
  by (subst setFinalBinaryAddressFrom.simps) (auto simp add: takesAddress_def op_byte_inj simp del: op_byte.simps)

lemma pass_step_call:
  assumes "unat a < length subs"
  shows "setFinalBinaryAddressFrom subs (length pre + Suc n) (length pre)
           (pre @ op_byte OP_Call # u32le a @ rest)
       = map_option (\<lambda>(visited, out). (length pre # visited, out))
           (setFinalBinaryAddressFrom subs (length pre + Suc n)
              (length (pre @ op_byte OP_Call # u32le (sub_address (subs ! unat a))))
              ((pre @ op_byte OP_Call # u32le (sub_address (subs ! unat a))) @ rest))"
  using assms
  by (subst setFinalBinaryAddressFrom.simps) (simp add: readUint32_def writeUint32_def del: op_byte.simps)

lemma pass_items:
  assumes "\<forall>it \<in> set items. okInstr (length subs) it"
  shows "setFinalBinaryAddressFrom subs (length pre + length (assemble items)) (length pre)
           (pre @ assemble items)
       = Some (offsets (length pre) items,
               pre @ assemble (map (relink (\<lambda>k. sub_address (subs ! k))) items))"
  using assms
proof (induction items arbitrary: pre)
  case Nil
  then show ?case by (subst setFinalBinaryAddressFrom.simps) simp
next
  case (Cons it items)
  then have ok: "\<forall>it \<in> set items. okInstr (length subs) it" by simp
  show ?case
  proof (cases it)
    case (Plain op)
    with Cons.prems have a: "\<not> takesAddress op" "op \<noteq> OP_Loads" by simp_all
    from Cons.IH [OF ok, of "pre @ [op_byte op]"] pass_step_plain [OF a, of subs pre "length (assemble items)" "assemble items"]
    show ?thesis by (simp add: Plain add_ac)
  next
    case (WithAddress op a)
    show ?thesis
    proof (cases "op = OP_Call")
      case True
      with Cons.prems WithAddress have v: "unat a < length subs" by simp
      from Cons.IH [OF ok, of "pre @ op_byte OP_Call # u32le (sub_address (subs ! unat a))"]
        pass_step_call [OF v, of pre "4 + length (assemble items)" "assemble items"]
      show ?thesis by (simp add: WithAddress True add_ac)
    next
      case False
      with Cons.prems WithAddress have t: "takesAddress op" by simp
      from Cons.IH [OF ok, of "pre @ op_byte op # u32le a"]
        pass_step_literal [OF t False, of subs pre "4 + length (assemble items)" a "assemble items"]
      show ?thesis by (simp add: WithAddress False add_ac)
    qed
  qed
qed


declare linkRoutinesFrom.simps [simp del]

lemma setFinalBinaryAddress_items:
  assumes "\<forall>it \<in> set items. okInstr (length subs) it"
  shows "setFinalBinaryAddress subs (assemble items)
           = Some (assemble (map (relink (\<lambda>k. sub_address (subs ! k))) items))"
  using pass_items [OF assms, of "[]"] by (simp add: setFinalBinaryAddress_def)

lemma opcodeReads_items:
  assumes "\<forall>it \<in> set items. okInstr (length subs) it"
  shows "opcodeReads subs (assemble items) = Some (offsets 0 items)"
  using pass_items [OF assms, of "[]"] by (simp add: opcodeReads_def)

lemma relink_cong:
  assumes "\<forall>it \<in> set items. okInstr n it" and "\<forall>i<n. addr i = addr' i"
  shows "map (relink addr) items = map (relink addr') items"
  using assms
proof (induction items)
  case Nil
  then show ?case by simp
next
  case (Cons it items)
  then show ?case by (cases it) auto
qed

lemma unat_add_of_nat:
  "unat (a::u32) + n < 2 ^ 32 \<Longrightarrow> unat (a + of_nat n) = unat a + n"
  by (simp add: unat_word_ariths unat_of_nat)

lemma writeUint16_end [simp]: "writeUint16 bin (length bin) v = Some (bin @ u16le v)"
  by (simp add: writeUint16_def)

lemma storageBytes_Nil [simp]: "storageBytes [] = []"
  by (simp add: storageBytes_def)

lemma storageBytes_Cons [simp]:
  "storageBytes (item # items) = u16le (of_nat (length item)) @ map of_char item @ storageBytes items"
  by (simp add: storageBytes_def)

lemma buildStorage_bytes:
  assumes "unat address = length bin" and "length bin + length (storageBytes items) < 2 ^ 32"
  shows "buildStorage items bin address
           = Some (bin @ storageBytes items, address + of_nat (length (storageBytes items)))"
  using assms
proof (induction items arbitrary: bin address)
  case Nil
  then show ?case by simp
next
  case (Cons item items)
  let ?bin = "bin @ u16le (of_nat (length item)) @ map of_char item"
  let ?address = "address + 2 + of_nat (length item)"
  from Cons.prems have b: "unat address + (2 + length item) < 2 ^ 32" by simp
  have "?address = address + of_nat (2 + length item)" by simp
  with unat_add_of_nat [OF b] Cons.prems(1) have u: "unat ?address = length ?bin"
    by (simp only: length_append length_u16le length_map)
  from Cons.prems(2) have l: "length ?bin + length (storageBytes items) < 2 ^ 32" by simp
  from Cons.IH [OF u l] Cons.prems(1) show ?case by simp
qed

lemma length_assignAddresses [simp]: "length (assignAddresses subs a) = length subs"
  by (induction subs arbitrary: a) simp_all

lemma assignAddresses_nth:
  "k < length subs \<Longrightarrow>
     assignAddresses subs a ! k =
       (subs ! k)\<lparr>sub_address := a + of_nat (length (concat (map sub_ops (take k subs))))\<rparr>"
proof (induction subs arbitrary: a k)
  case Nil
  then show ?case by simp
next
  case (Cons r subs)
  then show ?case by (cases k) (simp_all add: add.assoc)
qed


lemma linkRoutinesFrom_items:
  assumes "length ri = length subs0"
    and "\<forall>j<length subs0. \<forall>it \<in> set (ri ! j). okInstr (length subs0) it"
    and "length subs = length subs0"
    and "\<forall>j<length subs0. sub_address (subs ! j) = sub_address (subs0 ! j)"
    and "\<forall>j<length subs0. k \<le> j \<longrightarrow> sub_ops (subs ! j) = assemble (ri ! j)"
    and "\<forall>j<k. sub_ops (subs ! j) = assemble (map (relink (\<lambda>i. sub_address (subs0 ! i))) (ri ! j))"
  shows "\<exists>subs2. linkRoutinesFrom k subs = Some subs2 \<and> length subs2 = length subs0
      \<and> (\<forall>j<length subs0.
            sub_ops (subs2 ! j) = assemble (map (relink (\<lambda>i. sub_address (subs0 ! i))) (ri ! j))
          \<and> sub_address (subs2 ! j) = sub_address (subs0 ! j))"
  using assms(3-6)
proof (induction "length subs0 - k" arbitrary: k subs)
  case 0
  then have "\<not> k < length subs" by simp
  then have "linkRoutinesFrom k subs = Some subs"
    by (subst linkRoutinesFrom.simps) simp
  with 0 show ?case by simp
next
  case (Suc d)
  then have k: "k < length subs0" by simp
  let ?addr = "\<lambda>i. sub_address (subs0 ! i)"
  let ?new = "assemble (map (relink ?addr) (ri ! k))"
  let ?subs = "subs[k := (subs ! k)\<lparr>sub_ops := ?new\<rparr>]"
  from assms(2) k Suc.prems(1) have ok: "\<forall>it \<in> set (ri ! k). okInstr (length subs) it" by simp
  from Suc.prems(1,2) have "\<forall>i<length subs. sub_address (subs ! i) = ?addr i" by simp
  with ok have "map (relink (\<lambda>i. sub_address (subs ! i))) (ri ! k) = map (relink ?addr) (ri ! k)"
    by (rule relink_cong)
  with setFinalBinaryAddress_items [OF ok] Suc.prems(3) k
  have s: "setFinalBinaryAddress subs (sub_ops (subs ! k)) = Some ?new" by simp
  with k Suc.prems(1) have step: "linkRoutinesFrom k subs = linkRoutinesFrom (k + 1) ?subs"
    by (subst linkRoutinesFrom.simps) simp
  have d: "d = length subs0 - (k + 1)" using Suc.hyps(2) by simp
  have a1: "length ?subs = length subs0" using Suc.prems(1) by simp
  have a2: "\<forall>j<length subs0. sub_address (?subs ! j) = sub_address (subs0 ! j)"
    using Suc.prems(1,2) k by (auto simp: nth_list_update)
  have a3: "\<forall>j<length subs0. k + 1 \<le> j \<longrightarrow> sub_ops (?subs ! j) = assemble (ri ! j)"
    using Suc.prems(1,3) k by (auto simp: nth_list_update)
  have a4: "\<forall>j<k + 1. sub_ops (?subs ! j) = assemble (map (relink ?addr) (ri ! j))"
    using Suc.prems(1,4) k by (auto simp: nth_list_update less_Suc_eq)
  from Suc.hyps(1) [OF d a1 a2 a3 a4] step show ?case by simp
qed


lemma length_concat_relink:
  "length (concat (map (\<lambda>its. assemble (map (relink addr) its)) ri))
     = length (concat (map assemble ri))"
  by (induction ri) simp_all

lemma finalAddress_ge: "5 + length (storageBytes (storage p)) \<le> finalAddress p k"
  by (simp add: finalAddress_def)

text \<open>
  Link integrity. Let the main buffer and the buffer of every subroutine be
  assembled from instructions in order for the registry, let the program have
  storage or subroutines, and let the binary stay below \<open>2^32\<close> bytes. Then
  \<^verbatim>\<open>build\<close> returns the jump opcode, the offset of the main program (header
  plus storage region plus all subroutines) in bytes 1 to 4, the storage
  region, the subroutines in registry order and the main program, where the
  operand of every \<^verbatim>\<open>Call\<close> is the offset at which the subroutine it named
  by index starts, and nothing else has changed.
\<close>

theorem build_links:
  assumes ri: "map sub_ops (subroutines p) = map assemble routineItems"
    and okr: "\<forall>its \<in> set routineItems. \<forall>it \<in> set its. okInstr (length (subroutines p)) it"
    and mi: "ops p = assemble mainItems"
    and okm: "\<forall>it \<in> set mainItems. okInstr (length (subroutines p)) it"
    and ne: "0 < length (storage p) \<or> 0 < length (subroutines p)"
    and size: "finalAddress p (length (subroutines p)) < 2 ^ 32"
  shows "\<exists>bin p'. build p = Some (bin, p')
      \<and> bin = op_byte OP_Jump # u32le (of_nat (finalAddress p (length (subroutines p))))
               @ storageBytes (storage p)
               @ concat (map (\<lambda>its. assemble (map (relink (\<lambda>k. of_nat (finalAddress p k))) its))
                          routineItems)
               @ assemble (map (relink (\<lambda>k. of_nat (finalAddress p k))) mainItems)
      \<and> ops p' = assemble (map (relink (\<lambda>k. of_nat (finalAddress p k))) mainItems)
      \<and> map sub_ops (subroutines p')
          = map (\<lambda>its. assemble (map (relink (\<lambda>k. of_nat (finalAddress p k))) its)) routineItems
      \<and> (\<forall>k<length (subroutines p). sub_address (subroutines p' ! k) = of_nat (finalAddress p k))"
proof -
  let ?S = "subroutines p"
  let ?n = "length ?S"
  let ?SB = "storageBytes (storage p)"
  let ?A = "\<lambda>k. (of_nat (finalAddress p k) :: u32)"
  let ?bin0 = "op_byte OP_Jump # u32le 0"
  let ?address1 = "(5::u32) + of_nat (length ?SB)"
  let ?subs1 = "assignAddresses ?S ?address1"
  from ri have lri: "length routineItems = ?n"
    by (metis length_map)
  from ri have rin: "\<forall>j<?n. sub_ops (?S ! j) = assemble (routineItems ! j)"
    by (metis lri nth_map)
  from size finalAddress_ge [of p ?n] have "length ?bin0 + length ?SB < 2 ^ 32" by simp
  moreover have "unat (5::u32) = length ?bin0" by simp
  ultimately have st: "buildStorage (storage p) ?bin0 5 = Some (?bin0 @ ?SB, ?address1)"
    by (rule buildStorage_bytes [rotated])
  have ad: "\<forall>k<?n. sub_address (?subs1 ! k) = ?A k"
    by (simp add: assignAddresses_nth finalAddress_def)
  have op1: "\<forall>k<?n. sub_ops (?subs1 ! k) = assemble (routineItems ! k)"
    using rin by (simp add: assignAddresses_nth)
  from okm have okm1: "\<forall>it \<in> set mainItems. okInstr (length ?subs1) it" by simp
  from okm ad have "map (relink (\<lambda>k. sub_address (?subs1 ! k))) mainItems = map (relink ?A) mainItems"
    by (rule relink_cong)
  with setFinalBinaryAddress_items [OF okm1] mi
  have main: "setFinalBinaryAddress ?subs1 (ops p) = Some (assemble (map (relink ?A) mainItems))"
    by simp
  have okr1: "\<forall>j<length ?subs1. \<forall>it \<in> set (routineItems ! j). okInstr (length ?subs1) it"
    using okr lri by (auto simp: all_set_conv_all_nth)
  from linkRoutinesFrom_items [of routineItems ?subs1 ?subs1 0] lri okr1 op1
  obtain subs2 where l: "linkRoutinesFrom 0 ?subs1 = Some subs2"
    and l2: "length subs2 = ?n"
    and o2: "\<forall>j<?n. sub_ops (subs2 ! j)
               = assemble (map (relink (\<lambda>i. sub_address (?subs1 ! i))) (routineItems ! j))"
    and a2: "\<forall>j<?n. sub_address (subs2 ! j) = sub_address (?subs1 ! j)"
    by auto
  have rl: "map (relink (\<lambda>i. sub_address (?subs1 ! i))) (routineItems ! j)
              = map (relink ?A) (routineItems ! j)" if "j < ?n" for j
    using okr lri that ad by (intro relink_cong [where n = ?n]) (auto simp: all_set_conv_all_nth)
  have ops2: "map sub_ops subs2 = map (\<lambda>its. assemble (map (relink ?A) its)) routineItems"
    using l2 lri o2 rl by (intro nth_equalityI) simp_all
  then have len2: "length (concat (map sub_ops subs2)) = length (concat (map sub_ops ?S))"
    by (simp add: length_concat_relink ri)
  have fin: "?address1 + of_nat (length (concat (map sub_ops ?S))) = ?A ?n"
    by (simp add: finalAddress_def)
  have wr: "writeUint32 ((?bin0 @ ?SB) @ concat (map sub_ops subs2)) 1 (?A ?n)
              = Some (op_byte OP_Jump # u32le (?A ?n) @ ?SB @ concat (map sub_ops subs2))"
    by (simp add: writeUint32_def del: op_byte.simps)
  from ne st main l len2 fin wr
  have "build p = Some (op_byte OP_Jump # u32le (?A ?n) @ ?SB @ concat (map sub_ops subs2)
                          @ assemble (map (relink ?A) mainItems),
                        p\<lparr>ops := assemble (map (relink ?A) mainItems), subroutines := subs2\<rparr>)"
    by (simp add: build_def Let_def del: op_byte.simps)
  with ops2 a2 ad show ?thesis by simp
qed

section \<open>The walker emits streams\<close>

lemma okInstr_mono: "okInstr n it \<Longrightarrow> n \<le> m \<Longrightarrow> okInstr m it"
  by (cases it) auto

lemma stream_mono: "stream n bs \<Longrightarrow> n \<le> m \<Longrightarrow> stream m bs"
  unfolding stream_def by (blast intro: okInstr_mono)

lemma stream_Nil [simp]: "stream n []"
  unfolding stream_def by (rule exI [of _ "[]"]) simp

lemma stream_plain:
  assumes "stream n bs" and "\<not> takesAddress op" and "op \<noteq> OP_Loads"
  shows "stream n (bs @ [op_byte op])"
proof -
  from assms(1) obtain items where i: "bs = assemble items" "\<forall>it \<in> set items. okInstr n it"
    unfolding stream_def by blast
  with assms(2,3) have "bs @ [op_byte op] = assemble (items @ [Plain op])
      \<and> (\<forall>it \<in> set (items @ [Plain op]). okInstr n it)"
    by simp
  then show ?thesis unfolding stream_def by blast
qed

lemma stream_address:
  assumes "stream n bs" and "takesAddress op" and "op = OP_Call \<longrightarrow> unat a < n"
  shows "stream n (bs @ op_byte op # u32le a)"
proof -
  from assms(1) obtain items where i: "bs = assemble items" "\<forall>it \<in> set items. okInstr n it"
    unfolding stream_def by blast
  with assms(2,3) have "bs @ op_byte op # u32le a = assemble (items @ [WithAddress op a])
      \<and> (\<forall>it \<in> set (items @ [WithAddress op a]). okInstr n it)"
    by simp
  then show ?thesis unfolding stream_def by blast
qed

lemma symbolsOk_mono: "symbolsOk n f \<Longrightarrow> n \<le> m \<Longrightarrow> symbolsOk m f"
  unfolding symbolsOk_def by (meson less_le_trans)

lemma symbolsOk_child: "symbolsOk n f \<Longrightarrow> symbolsOk n (Frame c (Some f) i [])"
  by (simp add: symbolsOk_def)

lemma symbolsOk_parent: "symbolsOk n f \<Longrightarrow> previous f = Some g \<Longrightarrow> symbolsOk n g"
  by (cases f) (auto simp: symbolsOk_def)

lemma symbolsOk_setSymbols:
  assumes "symbolsOk n f"
    and "\<forall>s \<in> set ss. sym_type s \<noteq> TypeVariable \<and> (\<forall>r. sym_routine s = Some r \<longrightarrow> r < n)"
  shows "symbolsOk n (setSymbols ss f)"
  using assms by (cases f) (auto simp: symbolsOk_def setSymbols_def)

lemma symbolsOk_current:
  "symbolsOk n f \<Longrightarrow> s \<in> set (symbols f) \<Longrightarrow>
     sym_type s \<noteq> TypeVariable \<and> (\<forall>r. sym_routine s = Some r \<longrightarrow> r < n)"
  by (cases f) (auto simp: symbolsOk_def)

lemma wellFormed_validTarget: "wellFormed p \<Longrightarrow> validTarget p"
  by (cases "activeSubroutines p = []") (auto simp: wellFormed_def validTarget_def)

lemma wellFormed_getOPs: "wellFormed p \<Longrightarrow> stream (length (subroutines p)) (getOPs p)"
  by (auto simp: wellFormed_def getOPs_def Let_def)

lemma wellFormed_putOPs:
  assumes "wellFormed p" and "stream (length (subroutines p)) bs"
  shows "wellFormed (putOPs bs p)"
proof (cases "activeSubroutines p = []")
  case True
  with assms show ?thesis by (simp add: wellFormed_def putOPs_def)
next
  case False
  let ?r = "last (activeSubroutines p)"
  from False assms(1) have r: "?r < length (subroutines p)"
    by (simp add: wellFormed_def)
  from assms r have "\<forall>x \<in> set ((subroutines p)[?r := (subroutines p ! ?r)\<lparr>sub_ops := bs\<rparr>]).
      stream (length (subroutines p)) (sub_ops x)"
    by (auto simp: wellFormed_def dest!: set_update_subset_insert [THEN subsetD])
  with False assms r show ?thesis
    by (simp add: wellFormed_def putOPs_def Let_def nth_list_update)
qed

lemma length_subroutines_pushOp [simp]:
  "length (subroutines (pushOp op ps p)) = length (subroutines p)"
  by (simp add: pushOp_def)

lemma wellFormed_pushOp:
  assumes "wellFormed p" and "\<not> takesAddress op" and "op \<noteq> OP_Loads"
  shows "wellFormed (pushOp op [] p)"
  using assms
  by (simp add: pushOp_def wellFormed_putOPs stream_plain wellFormed_getOPs del: op_byte.simps)

lemma pushAddress_pushOp:
  assumes "validTarget p"
  shows "pushAddress a (pushOp op [] p) = putOPs (getOPs p @ op_byte op # u32le a) p"
  using assms
  by (simp add: pushAddress_def pushOp_def getOPs_putOPs writeUint32_def del: op_byte.simps)

lemma length_subroutines_pushAddress [simp]:
  "length (subroutines (pushAddress a p)) = length (subroutines p)"
  by (simp add: pushAddress_def split: option.splits)

lemma wellFormed_pushAddress:
  assumes "wellFormed p" and "takesAddress op" and "op = OP_Call \<longrightarrow> unat a < length (subroutines p)"
  shows "wellFormed (pushAddress a (pushOp op [] p))"
  using assms
  by (simp add: pushAddress_pushOp wellFormed_validTarget wellFormed_putOPs stream_address
      wellFormed_getOPs del: op_byte.simps)


lemma wellFormed_storage [simp]:
  "wellFormed (p\<lparr>storage := x\<rparr>) = wellFormed p"
  "wellFormed (p\<lparr>storageIndex := y\<rparr>) = wellFormed p"
  by (simp_all add: wellFormed_def)

lemma pushOp_storage:
  "pushOp op ps (p\<lparr>storage := x\<rparr>) = (pushOp op ps p)\<lparr>storage := x\<rparr>"
  "pushOp op ps (p\<lparr>storageIndex := y\<rparr>) = (pushOp op ps p)\<lparr>storageIndex := y\<rparr>"
  by (simp_all add: pushOp_def putOPs_def getOPs_def Let_def)

lemma length_subroutines_pushStorage [simp]:
  "length (subroutines (pushStorage s p)) = length (subroutines p)"
  by (simp add: pushStorage_def registerStorage_def Let_def)

lemma registerStorage_alt:
  "registerStorage s q =
     ((if storageIndex q = 0 then 5 else storageIndex q),
      q\<lparr>storage := storage q @ [s],
        storageIndex := (if storageIndex q = 0 then 5 else storageIndex q) + 2 + of_nat (length s)\<rparr>)"
  by (simp add: registerStorage_def Let_def)

lemma wellFormed_pushStorage:
  assumes "wellFormed p" and "takesAddress op" and "op \<noteq> OP_Call"
  shows "wellFormed (pushStorage s (pushOp op [] p))"
proof -
  obtain a x y where r: "registerStorage s (pushOp op [] p) = (a, (pushOp op [] p)\<lparr>storage := x, storageIndex := y\<rparr>)"
    by (simp add: registerStorage_alt)
  have "(pushOp op [] p)\<lparr>storage := x, storageIndex := y\<rparr> = pushOp op [] (p\<lparr>storage := x, storageIndex := y\<rparr>)"
    by (simp add: pushOp_storage)
  with r have "pushStorage s (pushOp op [] p) = pushAddress a (pushOp op [] (p\<lparr>storage := x, storageIndex := y\<rparr>))"
    by (simp add: pushStorage_def)
  moreover from assms have "wellFormed (pushAddress a (pushOp op [] (p\<lparr>storage := x, storageIndex := y\<rparr>)))"
    by (intro wellFormed_pushAddress) simp_all
  ultimately show ?thesis by simp
qed

lemma wellFormed_symbolsOk: "wellFormed p \<Longrightarrow> symbolsOk (length (subroutines p)) (frame p)"
  by (simp add: wellFormed_def)

lemma wellFormed_frame:
  "wellFormed p \<Longrightarrow> symbolsOk (length (subroutines p)) f \<Longrightarrow> wellFormed (p\<lparr>frame := f\<rparr>)"
  by (simp add: wellFormed_def)

lemma wellFormed_pushFrame:
  assumes "wellFormed p"
  shows "wellFormed (snd (pushFrame implicit p))"
proof (cases implicit)
  case True
  with assms show ?thesis
    by (simp add: snd_pushFrame_implicit wellFormed_frame symbolsOk_child wellFormed_symbolsOk)
next
  case False
  from assms have w: "wellFormed (pushOp OP_Frame [] p)"
    by (rule wellFormed_pushOp) (simp_all add: takesAddress_def)
  from wellFormed_frame [OF w, of "Frame False (Some (frame p)) (frame_id (frame p) + 1) []"]
    wellFormed_symbolsOk [OF assms] False
  show ?thesis by (simp add: snd_pushFrame_explicit symbolsOk_child)
qed

lemma length_subroutines_pushFrame [simp]:
  "length (subroutines (snd (pushFrame implicit p))) = length (subroutines p)"
  by (simp add: pushFrame_def Let_def)

lemma wellFormed_popFrameImplicit:
  assumes "wellFormed p"
  shows "wellFormed (popFrameImplicit p)"
proof (cases "previous (frame p)")
  case None
  with assms show ?thesis by (simp add: popFrameImplicit_def)
next
  case (Some g)
  from symbolsOk_parent [OF wellFormed_symbolsOk [OF assms] Some] assms Some
  show ?thesis by (simp add: popFrameImplicit_def wellFormed_frame)
qed

lemma length_subroutines_popFrameImplicit [simp]:
  "length (subroutines (popFrameImplicit p)) = length (subroutines p)"
  by (simp add: popFrameImplicit_def split: option.splits)

lemma wellFormed_pushSymbol:
  assumes "wellFormed p"
  shows "wellFormed (snd (pushSymbol nm ty pos p))"
proof -
  let ?n = "length (subroutines p)"
  let ?ss = "symbols (frame p)"
  note ok = symbolsOk_current [OF wellFormed_symbolsOk [OF assms]]
  show ?thesis
  proof (cases "findByName nm ?ss")
    case None
    have "symbolsOk ?n (setSymbols (?ss @ [\<lparr>sym_name = nm, sym_type = Variable,
            sym_index = of_nat (length ?ss), sym_pos = pos, sym_declarations = 1,
            sym_routine = None, sym_frame = frame_id (frame p)\<rparr>]) (frame p))"
      using ok by (intro symbolsOk_setSymbols wellFormed_symbolsOk [OF assms]) auto
    with None assms show ?thesis
      by (simp add: pushSymbol_def Let_def wellFormed_frame)
  next
    case (Some k)
    then have k: "k < length ?ss" by (simp add: findByName_Some)
    let ?s = "(?ss ! k)\<lparr>sym_declarations := sym_declarations (?ss ! k) + 1\<rparr>"
    from ok [of "?ss ! k"] k have "sym_type ?s \<noteq> TypeVariable \<and> (\<forall>r. sym_routine ?s = Some r \<longrightarrow> r < ?n)"
      by simp
    with ok have "\<forall>s \<in> set (?ss[k := ?s]). sym_type s \<noteq> TypeVariable \<and> (\<forall>r. sym_routine s = Some r \<longrightarrow> r < ?n)"
      by (auto dest!: set_update_subset_insert [THEN subsetD])
    then have "symbolsOk ?n (setSymbols (?ss[k := ?s]) (frame p))"
      by (intro symbolsOk_setSymbols wellFormed_symbolsOk [OF assms])
    with Some assms show ?thesis
      by (simp add: pushSymbol_def Let_def wellFormed_frame)
  qed
qed

lemma length_subroutines_pushSymbol [simp]:
  "length (subroutines (snd (pushSymbol nm ty pos p))) = length (subroutines p)"
  by (simp add: pushSymbol_def Let_def split: option.splits)

lemma fst_pushSymbol_less:
  "fst (pushSymbol nm ty pos p) < length (symbols (frame (snd (pushSymbol nm ty pos p))))"
  by (auto simp: pushSymbol_def Let_def dest: findByName_Some split: option.splits)


lemma wellFormed_pushSymbolForRoutine:
  assumes "wellFormed p"
  shows "wellFormed (snd (pushSymbolForRoutine nm ty pos p))
       \<and> length (subroutines p) \<le> length (subroutines (snd (pushSymbolForRoutine nm ty pos p)))"
proof -
  obtain k p1 where e: "pushSymbol nm ty pos p = (k, p1)" by (cases "pushSymbol nm ty pos p")
  with wellFormed_pushSymbol [OF assms, of nm ty pos] fst_pushSymbol_less [of nm ty pos p]
    length_subroutines_pushSymbol [of nm ty pos p]
  have w1: "wellFormed p1" and k: "k < length (symbols (frame p1))"
    and n1: "length (subroutines p1) = length (subroutines p)" by simp_all
  let ?n = "length (subroutines p1)"
  let ?ss = "symbols (frame p1)"
  show ?thesis
  proof (cases "sym_routine (?ss ! k) = None")
    case False
    with e w1 n1 show ?thesis by (simp add: pushSymbolForRoutine_def Let_def)
  next
    case True
    let ?r = "\<lparr>sub_ops = [], sub_identifier = nm, sub_address = of_nat ?n, sub_pos = pos, sub_type = ty\<rparr>"
    let ?s = "(?ss ! k)\<lparr>sym_routine := Some ?n\<rparr>"
    let ?p2 = "p1\<lparr>subroutines := subroutines p1 @ [?r], frame := setSymbols (?ss[k := ?s]) (frame p1)\<rparr>"
    from e True have r: "snd (pushSymbolForRoutine nm ty pos p) = ?p2"
      by (simp add: pushSymbolForRoutine_def Let_def)
    note ok = symbolsOk_current [OF wellFormed_symbolsOk [OF w1]]
    from ok [of "?ss ! k"] k have "sym_type ?s \<noteq> TypeVariable" by simp
    with ok have "\<forall>s \<in> set (?ss[k := ?s]). sym_type s \<noteq> TypeVariable
        \<and> (\<forall>r. sym_routine s = Some r \<longrightarrow> r < Suc ?n)"
      by (auto dest!: set_update_subset_insert [THEN subsetD] simp: less_Suc_eq)
    with symbolsOk_mono [OF wellFormed_symbolsOk [OF w1], of "Suc ?n"]
    have a: "symbolsOk (Suc ?n) (setSymbols (?ss[k := ?s]) (frame p1))"
      by (intro symbolsOk_setSymbols) simp_all
    from w1 have b: "stream (Suc ?n) (ops p1)"
      by (auto simp: wellFormed_def intro: stream_mono)
    from w1 have c: "\<forall>x \<in> set (subroutines p1 @ [?r]). stream (Suc ?n) (sub_ops x)"
      by (auto simp: wellFormed_def intro: stream_mono)
    from w1 have d: "\<forall>j<Suc ?n. sub_address ((subroutines p1 @ [?r]) ! j) = of_nat j"
      by (auto simp: wellFormed_def nth_append less_Suc_eq)
    from w1 have f: "\<forall>x \<in> set (activeSubroutines p1). x < Suc ?n"
      by (auto simp: wellFormed_def less_Suc_eq)
    from a b c d f have "wellFormed ?p2" by (simp add: wellFormed_def)
    with r n1 show ?thesis by simp
  qed
qed

lemma wellFormed_pushSubroutine:
  assumes "wellFormed p" and "pushSubroutine nm p = (Ok ad, p')"
  shows "wellFormed p' \<and> length (subroutines p') = length (subroutines p)
       \<and> unat ad < length (subroutines p)"
proof -
  from assms(2) obtain k r where k: "findByName nm (symbols (frame p)) = Some k"
    and r: "sym_routine (symbols (frame p) ! k) = Some r" "r < length (subroutines p)"
    and p': "p' = (snd (pushFrame True p))\<lparr>activeSubroutines := activeSubroutines p @ [r]\<rparr>"
    and ad: "ad = sub_address (subroutines p ! r)"
    by (auto simp: pushSubroutine_def Let_def snd_pushFrame_implicit split: option.splits if_splits)
  from wellFormed_pushFrame [OF assms(1), of True] assms(1) r(2) p'
  have "wellFormed p'"
    by (simp add: wellFormed_def snd_pushFrame_implicit)
  moreover from assms(1) r(2) ad have "ad = of_nat r" by (simp add: wellFormed_def)
  then have "unat ad \<le> r" by (simp add: unat_of_nat)
  ultimately show ?thesis using r(2) p' by (simp add: snd_pushFrame_implicit)
qed

lemma wellFormed_popSubroutine:
  assumes "wellFormed p" and "popSubroutine p = (Ok u, p')"
  shows "wellFormed p' \<and> length (subroutines p') = length (subroutines p)"
proof -
  let ?p1 = "popFrameImplicit p"
  let ?S = "subroutines ?p1"
  let ?r = "last (activeSubroutines ?p1)"
  let ?x = "(?S ! ?r)\<lparr>sub_ops := sub_ops (?S ! ?r) @ [op_byte OP_Return]\<rparr>"
  from assms(2) have r: "?r < length ?S"
    and p': "p' = ?p1\<lparr>subroutines := ?S[?r := ?x], activeSubroutines := butlast (activeSubroutines ?p1)\<rparr>"
    by (auto simp: popSubroutine_def Let_def split: if_splits)
  note w1 = wellFormed_popFrameImplicit [OF assms(1)]
  from w1 r have "stream (length ?S) (sub_ops (?S ! ?r))" by (simp add: wellFormed_def)
  then have "stream (length ?S) (sub_ops ?x)"
    using stream_plain [of "length ?S" "sub_ops (?S ! ?r)" OP_Return]
    by (simp add: takesAddress_def)
  with w1 have a: "\<forall>x \<in> set (?S[?r := ?x]). stream (length ?S) (sub_ops x)"
    by (auto simp: wellFormed_def dest!: set_update_subset_insert [THEN subsetD])
  from w1 r have b: "\<forall>j<length ?S. sub_address (?S[?r := ?x] ! j) = of_nat j"
    by (auto simp: wellFormed_def nth_list_update)
  from w1 have c: "\<forall>x \<in> set (butlast (activeSubroutines ?p1)). x < length ?S"
    by (auto simp: wellFormed_def dest: in_set_butlastD)
  from w1 a b c have "wellFormed p'" by (simp add: p' wellFormed_def)
  then show ?thesis by (simp add: p')
qed

lemma wellFormed_findSymbol:
  assumes "wellFormed p" and "findSymbol nm p = Ok s"
  shows "sym_type s \<noteq> TypeVariable \<and> (\<forall>r. sym_routine s = Some r \<longrightarrow> r < length (subroutines p))"
  using findSymbolFrom_Ok_member [of "frame p" nm s] assms wellFormed_symbolsOk [OF assms(1)]
  by (auto simp: findSymbol_def symbolsOk_def)

lemma wellFormed_typeParameters:
  "wellFormed p \<Longrightarrow>
     wellFormed (fold (\<lambda>param q. pushOp OP_Var [] (snd (pushSymbol nm ty pos q))) ps p)
     \<and> length (subroutines (fold (\<lambda>param q. pushOp OP_Var [] (snd (pushSymbol nm ty pos q))) ps p))
         = length (subroutines p)"
proof (induction ps arbitrary: p)
  case Nil
  then show ?case by simp
next
  case (Cons x ps)
  from Cons.prems have "wellFormed (pushOp OP_Var [] (snd (pushSymbol nm ty pos p)))"
    by (intro wellFormed_pushOp wellFormed_pushSymbol) (simp_all add: takesAddress_def)
  from Cons.IH [OF this] show ?case by simp
qed


lemma sub_address_pushOp [simp]:
  "sub_address (subroutines (pushOp op ps p) ! r) = sub_address (subroutines p ! r)"
  by (simp add: pushOp_def putOPs_def Let_def nth_list_update)

lemma handleList_wellFormed:
  assumes "\<And>node p u p'. handle n node p = Some (Ok u, p') \<Longrightarrow> wellFormed p \<Longrightarrow>
             wellFormed p' \<and> length (subroutines p) \<le> length (subroutines p')"
  shows "handleList n nodes p = Some (Ok u, p') \<Longrightarrow> wellFormed p \<Longrightarrow>
           wellFormed p' \<and> length (subroutines p) \<le> length (subroutines p')"
proof (induction nodes arbitrary: p)
  case Nil
  then show ?case by simp
next
  case (Cons x xs)
  from Cons.prems(1) obtain q where q: "handle n x p = Some (Ok (), q)"
    and r: "handleList n xs q = Some (Ok u, p')"
    by (auto dest: andThen_Ok)
  from assms [OF q Cons.prems(2)] Cons.IH [OF r] show ?case by auto
qed

lemma handle_wellFormed:
  "handle n node p = Some (Ok u, p') \<Longrightarrow> wellFormed p \<Longrightarrow>
     wellFormed p' \<and> length (subroutines p) \<le> length (subroutines p')"
proof (induction n arbitrary: node p u p')
  case 0
  then show ?case by simp
next
  case (Suc n)
  note IH = Suc.IH
  have IHL: "wellFormed p' \<and> length (subroutines p) \<le> length (subroutines p')"
    if "handleList n nodes p = Some (Ok u, p')" and "wellFormed p" for nodes p u p'
    using that by (rule handleList_wellFormed [rotated]) (rule Suc.IH)
  note w = Suc.prems(2)
  show ?case
  proof (cases node)
    case (SourceFile xs)
    with Suc.prems show ?thesis by (auto dest: IHL)
  next
    case BooleanKeyword
    with Suc.prems show ?thesis by (auto intro!: wellFormed_pushOp simp: takesAddress_def)
  next
    case StringKeyword
    with Suc.prems show ?thesis by (auto intro!: wellFormed_pushOp simp: takesAddress_def)
  next
    case NumberKeyword
    with Suc.prems show ?thesis by (auto intro!: wellFormed_pushOp simp: takesAddress_def)
  next
    case (BigIntLiteral x)
    with Suc.prems show ?thesis by (auto intro!: wellFormed_pushStorage simp: takesAddress_def)
  next
    case (NumericLiteral x)
    with Suc.prems show ?thesis by (auto intro!: wellFormed_pushStorage simp: takesAddress_def)
  next
    case (StringLiteral x)
    with Suc.prems show ?thesis by (auto intro!: wellFormed_pushStorage simp: takesAddress_def)
  next
    case TrueKeyword
    with Suc.prems show ?thesis by (auto intro!: wellFormed_pushOp simp: takesAddress_def)
  next
    case FalseKeyword
    with Suc.prems show ?thesis by (auto intro!: wellFormed_pushOp simp: takesAddress_def)
  next
    case (UnionType xs)
    with Suc.prems obtain q where q: "handleList n xs (snd (pushFrame False p)) = Some (Ok (), q)"
      and r: "p' = popFrameImplicit (pushOp OP_Union [] q)"
      by (auto dest!: andThen_Ok)
    from IHL [OF q wellFormed_pushFrame [OF w]]
    have "wellFormed q" and "length (subroutines p) \<le> length (subroutines q)" by simp_all
    with r show ?thesis
      by (auto intro!: wellFormed_popFrameImplicit wellFormed_pushOp simp: takesAddress_def)
  next
    case (TypeReference nm)
    with Suc.prems obtain s where s: "findSymbol nm p = Ok s"
      by (auto split: outcome.splits)
    note ok = wellFormed_findSymbol [OF w s]
    with Suc.prems TypeReference s obtain r where r: "sym_routine s = Some r"
      and p': "p' = pushAddress (sub_address (subroutines p ! r)) (pushOp OP_Call [] p)"
      by (auto simp: Let_def split: option.splits if_splits)
    from ok r have rn: "r < length (subroutines p)" by simp
    with w have "sub_address (subroutines p ! r) = of_nat r" by (simp add: wellFormed_def)
    then have "unat (sub_address (subroutines p ! r)) \<le> r" by (simp add: unat_of_nat)
    with rn have "unat (sub_address (subroutines p ! r)) < length (subroutines p)" by simp
    with w p' show ?thesis
      by (auto intro!: wellFormed_pushAddress simp: takesAddress_def)
  next
    case (TypeAliasDeclaration nm pos tps ty)
    obtain k p1 where p1: "pushSymbolForRoutine nm Type pos p = (k, p1)"
      by (cases "pushSymbolForRoutine nm Type pos p")
    with wellFormed_pushSymbolForRoutine [OF w, of nm Type pos]
    have w1: "wellFormed p1" and l1: "length (subroutines p) \<le> length (subroutines p1)" by simp_all
    show ?thesis
    proof (cases "1 < sym_declarations (symbols (frame p1) ! k)")
      case True
      with Suc.prems TypeAliasDeclaration p1 w1 l1 show ?thesis by simp
    next
      case False
      let ?p3 = "\<lambda>p2. case tps of None \<Rightarrow> p2
                  | Some ps \<Rightarrow> fold (\<lambda>param q. pushOp OP_Var [] (snd (pushSymbol nm TypeVariable pos q))) ps p2"
      from False Suc.prems TypeAliasDeclaration p1 obtain ad p2 p4 where
        p2: "pushSubroutine nm p1 = (Ok ad, p2)"
        and p4: "handle n ty (?p3 p2) = Some (Ok (), p4)"
        and p5: "popSubroutine p4 = (Ok u, p')"
        by (auto simp: Let_def split: prod.splits outcome.splits dest!: andThen_Ok)
      from wellFormed_pushSubroutine [OF w1 p2]
      have w2: "wellFormed p2" and l2: "length (subroutines p2) = length (subroutines p1)" by simp_all
      have "wellFormed (?p3 p2) \<and> length (subroutines (?p3 p2)) = length (subroutines p2)"
        using w2 wellFormed_typeParameters [OF w2, of nm TypeVariable pos] by (cases tps) simp_all
      then have w3: "wellFormed (?p3 p2)"
        and l3: "length (subroutines (?p3 p2)) = length (subroutines p2)" by simp_all
      from IH [OF p4 w3] have w4: "wellFormed p4"
        and l4: "length (subroutines (?p3 p2)) \<le> length (subroutines p4)" by simp_all
      from wellFormed_popSubroutine [OF w4 p5] l1 l2 l3 l4 show ?thesis by simp
    qed
  next
    case (FunctionDeclaration name params ty body)
    show ?thesis
    proof (cases name)
      case None
      with Suc.prems FunctionDeclaration show ?thesis by simp
    next
      case (Some tp)
      obtain ident idpos where tp: "tp = (ident, idpos)" by (cases tp)
      obtain k p1 where p1: "pushSymbolForRoutine ident Function idpos p = (k, p1)"
        by (cases "pushSymbolForRoutine ident Function idpos p")
      with wellFormed_pushSymbolForRoutine [OF w, of ident Function idpos]
      have w1: "wellFormed p1" and l1: "length (subroutines p) \<le> length (subroutines p1)" by simp_all
      show ?thesis
      proof (cases "1 < sym_declarations (symbols (frame p1) ! k)")
        case True
        with Suc.prems FunctionDeclaration Some tp p1 w1 l1 show ?thesis by simp
      next
        case False
        with Suc.prems FunctionDeclaration Some tp p1 obtain ad p2 p3 p4 where
          p2: "pushSubroutine ident p1 = (Ok ad, p2)"
          and p3: "handleList n (map (\<lambda>param. node) params) p2 = Some (Ok (), p3)"
          and p4: "(case ty of Some t \<Rightarrow> handle n t p3 | None \<Rightarrow> returns (pushOp OP_Unknown [] p3))
                     = Some (Ok (), p4)"
          and p5: "popSubroutine (pushOp OP_Function [] p4) = (Ok u, p')"
          by (auto simp: Let_def split: prod.splits outcome.splits dest!: andThen_Ok)
        from wellFormed_pushSubroutine [OF w1 p2]
        have w2: "wellFormed p2" and l2: "length (subroutines p2) = length (subroutines p1)" by simp_all
        from IHL [OF p3 w2] have w3: "wellFormed p3"
          and l3: "length (subroutines p2) \<le> length (subroutines p3)" by simp_all
        from p4 w3 have "wellFormed p4 \<and> length (subroutines p3) \<le> length (subroutines p4)"
          by (cases ty) (auto dest: IH intro!: wellFormed_pushOp simp: takesAddress_def)
        then have w4: "wellFormed (pushOp OP_Function [] p4)"
          and l4: "length (subroutines p3) \<le> length (subroutines (pushOp OP_Function [] p4))"
          by (auto intro!: wellFormed_pushOp simp: takesAddress_def)
        from wellFormed_popSubroutine [OF w4 p5] l1 l2 l3 l4 show ?thesis by simp
      qed
    qed
  next
    case (VariableStatement xs)
    with Suc.prems show ?thesis by (auto dest: IHL)
  next
    case (VariableDeclaration name ty init)
    show ?thesis
    proof (cases name)
      case None
      with Suc.prems VariableDeclaration show ?thesis by simp
    next
      case (Some tp)
      obtain ident idpos where tp: "tp = (ident, idpos)" by (cases tp)
      obtain k p1 where p1: "pushSymbolForRoutine ident Variable idpos p = (k, p1)"
        by (cases "pushSymbolForRoutine ident Variable idpos p")
      with wellFormed_pushSymbolForRoutine [OF w, of ident Variable idpos]
      have w1: "wellFormed p1" and l1: "length (subroutines p) \<le> length (subroutines p1)" by simp_all
      show ?thesis
      proof (cases "1 < sym_declarations (symbols (frame p1) ! k)")
        case True
        with Suc.prems VariableDeclaration Some tp p1 w1 l1 show ?thesis by simp
      next
        case False
        with Suc.prems VariableDeclaration Some tp p1 obtain ad p2 p3 p4 where
          p2: "pushSubroutine ident p1 = (Ok ad, p2)"
          and p3: "(case ty of Some t \<Rightarrow> handle n t p2 | None \<Rightarrow> returns (pushOp OP_Unknown [] p2))
                     = Some (Ok (), p3)"
          and p4: "popSubroutine p3 = (Ok (), p4)"
          and p5: "(case init of None \<Rightarrow> returns p4
                    | Some i \<Rightarrow> andThen (handle n i p4)
                        (\<lambda>p5. returns (pushOp OP_Assign [] (pushAddress ad (pushOp OP_Call [] p5)))))
                     = Some (Ok u, p')"
          by (auto simp: Let_def split: prod.splits outcome.splits dest!: andThen_Ok)
        from wellFormed_pushSubroutine [OF w1 p2]
        have w2: "wellFormed p2" and l2: "length (subroutines p2) = length (subroutines p1)"
          and ad: "unat ad < length (subroutines p1)" by simp_all
        from p3 w2 have "wellFormed p3 \<and> length (subroutines p2) \<le> length (subroutines p3)"
          by (cases ty) (auto dest: IH intro!: wellFormed_pushOp simp: takesAddress_def)
        then have w3: "wellFormed p3" and l3: "length (subroutines p2) \<le> length (subroutines p3)"
          by simp_all
        from wellFormed_popSubroutine [OF w3 p4]
        have w4: "wellFormed p4" and l4: "length (subroutines p4) = length (subroutines p3)" by simp_all
        show ?thesis
        proof (cases init)
          case None
          with p5 w4 l1 l2 l3 l4 show ?thesis by simp
        next
          case (Some i)
          with p5 obtain q where q: "handle n i p4 = Some (Ok (), q)"
            and e: "p' = pushOp OP_Assign [] (pushAddress ad (pushOp OP_Call [] q))"
            by (auto dest!: andThen_Ok)
          from IH [OF q w4] have wq: "wellFormed q"
            and lq: "length (subroutines p4) \<le> length (subroutines q)" by simp_all
          from ad l2 l3 l4 lq have "unat ad < length (subroutines q)" by simp
          with wq have "wellFormed (pushAddress ad (pushOp OP_Call [] q))"
            by (intro wellFormed_pushAddress) (simp_all add: takesAddress_def)
          then have "wellFormed p'" unfolding e
            by (intro wellFormed_pushOp) (simp_all add: takesAddress_def)
          with e l1 l2 l3 l4 lq show ?thesis by simp
        qed
      qed
    qed
  next
    case Unhandled
    with Suc.prems show ?thesis by simp
  qed
qed

lemma wellFormed_newProgram: "wellFormed newProgram"
  by (simp add: wellFormed_def newProgram_def symbolsOk_def)


section \<open>Compiling and linking a source unit\<close>

lemma streams_items:
  "\<forall>r \<in> set S. stream n (f r) \<Longrightarrow>
     \<exists>ris. map f S = map assemble ris \<and> (\<forall>its \<in> set ris. \<forall>it \<in> set its. okInstr n it)"
proof (induction S)
  case Nil
  then show ?case by simp
next
  case (Cons r S)
  then obtain ris where ris: "map f S = map assemble ris"
    "\<forall>its \<in> set ris. \<forall>it \<in> set its. okInstr n it" by auto
  from Cons.prems obtain items where items: "f r = assemble items" "\<forall>it \<in> set items. okInstr n it"
    by (auto simp: stream_def)
  from ris items have "map f (r # S) = map assemble (items # ris)
      \<and> (\<forall>its \<in> set (items # ris). \<forall>it \<in> set its. okInstr n it)" by simp
  then show ?case by blast
qed

lemma compile_BA:
  "compileSourceFile 3 (SourceFile [TypeAliasDeclaration ''B'' 0 None NumberKeyword,
                                   TypeAliasDeclaration ''A'' 0 None (TypeReference ''B'')])
     = Some (Ok (), compiledBA)"
  by (simp add: compileSourceFile_def compiledBA_def eval_nat_numeral walker_defs)

lemma finalAddress_compiledBA:
  "finalAddress compiledBA 0 = 5" "finalAddress compiledBA (Suc 0) = 7" "finalAddress compiledBA 2 = 13"
  by (simp_all add: finalAddress_def compiledBA_def eval_nat_numeral)

text \<open>
  For every source unit that compiles, with storage or subroutines and a
  binary below \<open>2^32\<close> bytes: the buffers of the compiled program are
  streams (in particular they hold no \<^verbatim>\<open>Loads\<close>), \<^verbatim>\<open>build\<close> succeeds, and
  the binary is the jump to the main program, the storage region, the
  subroutines and the main program, with the operand of every \<^verbatim>\<open>Call\<close>
  replaced by the offset at which the subroutine it named starts.
\<close>

theorem compiled_unit_links:
  assumes "compileSourceFile fuel file = Some (Ok (), p)"
    and "0 < length (storage p) \<or> 0 < length (subroutines p)"
    and "finalAddress p (length (subroutines p)) < 2 ^ 32"
  shows "\<exists>mainItems routineItems bin p'.
      ops p = assemble mainItems
    \<and> map sub_ops (subroutines p) = map assemble routineItems
    \<and> (\<forall>it \<in> set mainItems. okInstr (length (subroutines p)) it)
    \<and> (\<forall>its \<in> set routineItems. \<forall>it \<in> set its. okInstr (length (subroutines p)) it)
    \<and> build p = Some (bin, p')
    \<and> bin = op_byte OP_Jump # u32le (of_nat (finalAddress p (length (subroutines p))))
             @ storageBytes (storage p)
             @ concat (map (\<lambda>its. assemble (map (relink (\<lambda>k. of_nat (finalAddress p k))) its))
                        routineItems)
             @ assemble (map (relink (\<lambda>k. of_nat (finalAddress p k))) mainItems)
    \<and> ops p' = assemble (map (relink (\<lambda>k. of_nat (finalAddress p k))) mainItems)
    \<and> map sub_ops (subroutines p')
        = map (\<lambda>its. assemble (map (relink (\<lambda>k. of_nat (finalAddress p k))) its)) routineItems"
proof -
  from assms(1) have "wellFormed p"
    using handle_wellFormed [OF _ wellFormed_newProgram] by (simp add: compileSourceFile_def)
  then have m: "stream (length (subroutines p)) (ops p)"
    and r: "\<forall>r \<in> set (subroutines p). stream (length (subroutines p)) (sub_ops r)"
    by (simp_all add: wellFormed_def)
  from m obtain mainItems where mi: "ops p = assemble mainItems"
    "\<forall>it \<in> set mainItems. okInstr (length (subroutines p)) it"
    by (auto simp: stream_def)
  from streams_items [OF r] obtain routineItems where
    ri: "map sub_ops (subroutines p) = map assemble routineItems"
    "\<forall>its \<in> set routineItems. \<forall>it \<in> set its. okInstr (length (subroutines p)) it"
    by blast
  from build_links [OF ri mi assms(2,3)] mi ri show ?thesis by blast
qed

theorem compiled_unit_links_witness:
  "compileSourceFile 3 (SourceFile [TypeAliasDeclaration ''B'' 0 None NumberKeyword,
                                   TypeAliasDeclaration ''A'' 0 None (TypeReference ''B'')])
     = Some (Ok (), compiledBA)
   \<and> (0 < length (storage compiledBA) \<or> 0 < length (subroutines compiledBA))
   \<and> finalAddress compiledBA (length (subroutines compiledBA)) < 2 ^ 32
   \<and> (\<exists>bin p'. build compiledBA = Some (bin, p') \<and> length bin = 13 \<and> ops p' = []
        \<and> take 5 bin = op_byte OP_Jump # u32le 13)"
proof -
  have h2: "0 < length (storage compiledBA) \<or> 0 < length (subroutines compiledBA)"
    by (simp add: compiledBA_def)
  have h3: "finalAddress compiledBA (length (subroutines compiledBA)) < 2 ^ 32"
    by (simp add: finalAddress_def compiledBA_def)
  have n: "length (subroutines compiledBA) = 2" by (simp add: compiledBA_def)
  from compiled_unit_links [OF compile_BA h2 h3]
  obtain mainItems routineItems bin p' where
    a: "ops compiledBA = assemble mainItems"
    and b: "map sub_ops (subroutines compiledBA) = map assemble routineItems"
    and c: "build compiledBA = Some (bin, p')"
    and d: "bin = op_byte OP_Jump # u32le (of_nat (finalAddress compiledBA (length (subroutines compiledBA))))
             @ storageBytes (storage compiledBA)
             @ concat (map (\<lambda>its. assemble (map (relink (\<lambda>k. of_nat (finalAddress compiledBA k))) its))
                        routineItems)
             @ assemble (map (relink (\<lambda>k. of_nat (finalAddress compiledBA k))) mainItems)"
    and e: "ops p' = assemble (map (relink (\<lambda>k. of_nat (finalAddress compiledBA k))) mainItems)"
    by blast
  from a have "length (assemble mainItems) = 0" by (simp add: compiledBA_def)
  then have "length (assemble (map (relink (\<lambda>k. of_nat (finalAddress compiledBA k))) mainItems)) = 0"
    by (simp only: length_assemble_relink)
  then have m: "assemble (map (relink (\<lambda>k. of_nat (finalAddress compiledBA k))) mainItems) = []"
    by (simp only: length_0_conv)
  from b have "length (concat (map assemble routineItems)) = 8"
    by (simp add: compiledBA_def flip: b)
  then have r: "length (concat (map (\<lambda>its. assemble (map (relink (\<lambda>k. of_nat (finalAddress compiledBA k))) its))
                        routineItems)) = 8"
    by (simp add: length_concat_relink)
  have s: "storageBytes (storage compiledBA) = []" by (simp add: compiledBA_def)
  from d m r s have "length bin = 13" by simp
  moreover from d have "take 5 bin = op_byte OP_Jump # u32le 13"
    by (simp add: n finalAddress_compiledBA del: op_byte.simps)
  moreover from e m have "ops p' = []" by simp
  ultimately show ?thesis using compile_BA h2 h3 c by blast
qed

section \<open>Further facts about references, storage and linking\<close>

text \<open>
  A type reference that resolves to a symbol with a routine, in a well-formed
  program, emits \<^verbatim>\<open>Call\<close> followed by the registry index of the routine.
\<close>

lemma type_reference_emits_call:
  assumes "wellFormed p" and "findSymbol nm p = Ok s" and "sym_routine s = Some r"
  shows "handle (Suc n) (TypeReference nm) p
           = Some (Ok (), putOPs (getOPs p @ op_byte OP_Call # u32le (of_nat r)) p)"
proof -
  from wellFormed_findSymbol [OF assms(1,2)] assms(3)
  have t: "sym_type s \<noteq> TypeVariable" and r: "r < length (subroutines p)" by simp_all
  with assms(1) have "sub_address (subroutines p ! r) = of_nat r" by (simp add: wellFormed_def)
  with assms t r show ?thesis
    by (simp add: Let_def returns_def pushAddress_pushOp wellFormed_validTarget del: op_byte.simps)
qed

text \<open>
  The first literal of a program is stored at offset 5; as long as the
  running offset does not wrap, a literal is stored right after the previous
  one, which occupies 2 bytes and its payload. This holds for equal payloads
  too.
\<close>

lemma registerStorage_offsets:
  "fst (registerStorage s newProgram) = 5"
  "storageIndex p \<noteq> 0 \<Longrightarrow> unat (storageIndex p) + 2 + length s < 2 ^ 32 \<Longrightarrow>
     fst (registerStorage s p) = storageIndex p
     \<and> fst (registerStorage t (snd (registerStorage s p))) = storageIndex p + 2 + of_nat (length s)
     \<and> storage (snd (registerStorage t (snd (registerStorage s p)))) = storage p @ [s, t]"
proof -
  show "fst (registerStorage s newProgram) = 5"
    by (simp add: registerStorage_alt newProgram_def)
  assume a: "storageIndex p \<noteq> 0" and b: "unat (storageIndex p) + 2 + length s < 2 ^ 32"
  have e: "storageIndex p + 2 + of_nat (length s) = storageIndex p + of_nat (2 + length s)" by simp
  from b have "unat (storageIndex p + of_nat (2 + length s)) = unat (storageIndex p) + (2 + length s)"
    by (intro unat_add_of_nat) simp
  then have "unat (storageIndex p + 2 + of_nat (length s)) \<noteq> 0"
    unfolding e by (simp only:)
  then have "storageIndex p + 2 + of_nat (length s) \<noteq> 0" by (metis unat_0)
  with a show "fst (registerStorage s p) = storageIndex p
     \<and> fst (registerStorage t (snd (registerStorage s p))) = storageIndex p + 2 + of_nat (length s)
     \<and> storage (snd (registerStorage t (snd (registerStorage s p)))) = storage p @ [s, t]"
    by (simp add: registerStorage_alt)
qed


theorem build_links_witness:
  "map sub_ops (subroutines compiledBA)
     = map assemble [[Plain OP_Number, Plain OP_Return], [WithAddress OP_Call 0, Plain OP_Return]]
   \<and> ops compiledBA = assemble []
   \<and> (0 < length (storage compiledBA) \<or> 0 < length (subroutines compiledBA))
   \<and> finalAddress compiledBA (length (subroutines compiledBA)) < 2 ^ 32
   \<and> (\<exists>p'. build compiledBA
          = Some (op_byte OP_Jump # u32le 13
                    @ [op_byte OP_Number, op_byte OP_Return]
                    @ op_byte OP_Call # u32le 5 @ [op_byte OP_Return], p'))"
proof -
  let ?ri = "[[Plain OP_Number, Plain OP_Return], [WithAddress OP_Call 0, Plain OP_Return]]"
  have h1: "map sub_ops (subroutines compiledBA) = map assemble ?ri"
    by (simp add: compiledBA_def del: op_byte.simps)
  have h2: "\<forall>its \<in> set ?ri. \<forall>it \<in> set its. okInstr (length (subroutines compiledBA)) it"
    by (simp add: compiledBA_def takesAddress_def)
  have h3: "ops compiledBA = assemble []" by (simp add: compiledBA_def)
  have h4: "\<forall>it \<in> set []. okInstr (length (subroutines compiledBA)) it" by simp
  have h5: "0 < length (storage compiledBA) \<or> 0 < length (subroutines compiledBA)"
    by (simp add: compiledBA_def)
  have h6: "finalAddress compiledBA (length (subroutines compiledBA)) < 2 ^ 32"
    by (simp add: finalAddress_def compiledBA_def)
  have n: "length (subroutines compiledBA) = 2" and s: "storageBytes (storage compiledBA) = []"
    by (simp_all add: compiledBA_def)
  from build_links [OF h1 h2 h3 h4 h5 h6] h1 h3 h5 h6 show ?thesis
    by (auto simp add: n s finalAddress_compiledBA simp del: op_byte.simps)
qed

text \<open>
  The rewriting pass on a stream: it returns the stream with the operand of
  every \<^verbatim>\<open>Call\<close> replaced by the address of the subroutine with that index,
  it reads as opcodes exactly the first byte of every instruction, and the
  length of the buffer is unchanged.
\<close>

theorem rewriting_pass_on_streams:
  assumes "\<forall>it \<in> set items. okInstr (length subs) it"
  shows "setFinalBinaryAddress subs (assemble items)
           = Some (assemble (map (relink (\<lambda>k. sub_address (subs ! k))) items))
       \<and> opcodeReads subs (assemble items) = Some (offsets 0 items)
       \<and> length (assemble (map (relink (\<lambda>k. sub_address (subs ! k))) items))
           = length (assemble items)"
  using setFinalBinaryAddress_items [OF assms] opcodeReads_items [OF assms] by simp

theorem rewriting_pass_on_streams_witness:
  "setFinalBinaryAddress (assignAddresses (subroutines compiledBA) 5)
      (assemble [Plain OP_Frame, WithAddress OP_Call 1, WithAddress OP_StringLiteral 5, Plain OP_Union])
     = Some (assemble [Plain OP_Frame, WithAddress OP_Call 7, WithAddress OP_StringLiteral 5, Plain OP_Union])
   \<and> opcodeReads (assignAddresses (subroutines compiledBA) 5)
      (assemble [Plain OP_Frame, WithAddress OP_Call 1, WithAddress OP_StringLiteral 5, Plain OP_Union])
     = Some [0, 1, 6, 11]"
proof -
  let ?items = "[Plain OP_Frame, WithAddress OP_Call 1, WithAddress OP_StringLiteral 5, Plain OP_Union]"
  have h: "\<forall>it \<in> set ?items. okInstr (length (assignAddresses (subroutines compiledBA) 5)) it"
    by (simp add: compiledBA_def takesAddress_def)
  from rewriting_pass_on_streams [OF h] show ?thesis
    by (simp add: compiledBA_def del: op_byte.simps)
qed

end
